theory Spec2Isabelle
  imports Complex_Main "HOL-Library.Sublist" "HOL-Library.Multiset"
begin

section \<open>Strings of the source language\<close>

text \<open>
  The knowledge base is TypeScript. Its strings are sequences of UTF-16 code units; the
  model below covers the strings whose code units are below 256 (ASCII and Latin-1), one
  \<^typ>\<open>char\<close> per code unit. On this range every string primitive used by the source
  (\<open>toLowerCase\<close>, \<open>trim\<close>, \<open>split\<close>, \<open>includes\<close>, \<open>indexOf\<close>, \<open>slice\<close>, \<open>replace\<close>,
  \<open>match\<close>) is modelled exactly as ECMAScript defines it; in particular lower-casing
  keeps the length of a string here.
\<close>

text \<open>The regular expression class \<open>\s\<close> (white space and line terminators), which is
  also the set of code units removed by \<open>trim\<close>: TAB, LF, VT, FF, CR, SPACE, NBSP.\<close>

definition isSpace :: "char \<Rightarrow> bool" where
  "isSpace c \<longleftrightarrow> (of_char c :: nat) \<in> {0x09, 0x0A, 0x0B, 0x0C, 0x0D, 0x20, 0xA0}"

text \<open>Line terminators: what \<open>.\<close> does not match and what \<open>^\<close> follows under the
  \<open>m\<close> flag.\<close>

definition isLineTerminator :: "char \<Rightarrow> bool" where
  "isLineTerminator c \<longleftrightarrow> (of_char c :: nat) \<in> {0x0A, 0x0D}"

text \<open>\<open>toLowerCase\<close>: \<open>A\<close>-\<open>Z\<close> and the Latin-1 capitals (0xC0-0xDE without the
  multiplication sign 0xD7) move up by 32; every other code unit stays.\<close>

definition lowerChar :: "char \<Rightarrow> char" where
  "lowerChar c =
     (let n = (of_char c :: nat)
      in if (65 \<le> n \<and> n \<le> 90) \<or> (192 \<le> n \<and> n \<le> 222 \<and> n \<noteq> 215)
         then char_of (n + 32) else c)"

definition toLowerCase :: "string \<Rightarrow> string" where
  "toLowerCase s = map lowerChar s"

definition trim :: "string \<Rightarrow> string" where
  "trim s = rev (dropWhile isSpace (rev (dropWhile isSpace s)))"

text \<open>\<open>s.slice(a, b)\<close> for indices \<open>0 \<le> a \<le> b\<close>; indices past the end are clamped
  by \<open>take\<close> and \<open>drop\<close> as the source language clamps them.\<close>

definition slice :: "'a list \<Rightarrow> nat \<Rightarrow> nat \<Rightarrow> 'a list" where
  "slice s a b = take (b - a) (drop a s)"

text \<open>\<open>text.includes(term)\<close>: some position of \<open>text\<close> (the end included) starts a copy
  of \<open>term\<close>.\<close>

fun str_includes :: "string \<Rightarrow> string \<Rightarrow> bool" where
  "str_includes [] t = (t = [])"
| "str_includes (c # cs) t = (prefix t (c # cs) \<or> str_includes cs t)"

text \<open>\<open>text.indexOf(term)\<close>: the first such position, or \<open>-1\<close>.\<close>

fun indexOfFrom :: "nat \<Rightarrow> 'a list \<Rightarrow> 'a list \<Rightarrow> int" where
  "indexOfFrom i [] t = (if t = [] then int i else - 1)"
| "indexOfFrom i (c # cs) t = (if prefix t (c # cs) then int i else indexOfFrom (Suc i) cs t)"

definition indexOf :: "'a list \<Rightarrow> 'a list \<Rightarrow> int" where
  "indexOf s t = indexOfFrom 0 s t"

text \<open>\<open>s.split(/\s+/)\<close>: the pieces between the maximal runs of white space. A run at
  the start or the end of \<open>s\<close> leaves an empty piece there, and the empty string splits
  into one empty piece.\<close>

function splitWs :: "string \<Rightarrow> string list" where
  "splitWs s =
     (let t = takeWhile (\<lambda>c. \<not> isSpace c) s;
          r = dropWhile (\<lambda>c. \<not> isSpace c) s
      in if r = [] then [t] else t # splitWs (dropWhile isSpace r))"
  by pat_completeness auto
termination
proof (relation "measure length")
  show "wf (measure length)" by simp
next
  fix s t :: string and r :: string
  assume r: "r = dropWhile (\<lambda>c. \<not> isSpace c) s" and ne: "r \<noteq> []"
  from ne obtain c cs where rc: "r = c # cs" by (cases r) auto
  have "isSpace c" using r rc hd_dropWhile [of "\<lambda>c. \<not> isSpace c" s] by fastforce
  then have "length (dropWhile isSpace r) \<le> length cs"
    using rc by (simp add: length_dropWhile_le)
  also have "length cs < length r" using rc by simp
  also have "length r \<le> length s" using r by (simp add: length_dropWhile_le)
  finally show "(dropWhile isSpace r, s) \<in> measure length" by simp
qed

declare splitWs.simps [simp del]

text \<open>\<open>s.replace(/[^a-zA-Z0-9]/g, "_")\<close>: every code unit outside the three ranges
  becomes an underscore.\<close>

definition isAlnum :: "char \<Rightarrow> bool" where
  "isAlnum c \<longleftrightarrow>
     (let n = (of_char c :: nat)
      in (97 \<le> n \<and> n \<le> 122) \<or> (65 \<le> n \<and> n \<le> 90) \<or> (48 \<le> n \<and> n \<le> 57))"

definition replaceNonAlnum :: "string \<Rightarrow> string" where
  "replaceNonAlnum s = map (\<lambda>c. if isAlnum c then c else CHR ''_'') s"

section \<open>Stored pages\<close>

text \<open>
  Modelled from the spec: the declaration of \<open>StoredPage\<close> and \<open>DomainInfo\<close> lives in
  \<open>@/lib/storage\<close>, which is not among the sources. The fields are the ones the spec's
  data model lists and the components read; \<open>status\<close> (an outcome code), \<open>contentSize\<close>
  (a byte length) and \<open>timestamp\<close> (milliseconds since the epoch) are integers.
\<close>

record StoredPage =
  url :: string
  domain :: string
  content :: string
  status :: int
  contentSize :: int
  timestamp :: int

record DomainInfo =
  domain :: string
  pageCount :: int
  totalSize :: int

section \<open>Search\<close>

text \<open>A search result is a stored page with its relevance (\<open>{ ...page, relevance }\<close>).
  The source computes \<open>matches / lowerQuery.length\<close> in floating point; the quotients of
  one search share their denominator, so they are ordered and equal exactly as the
  rational numbers below are.\<close>

record SearchResult = StoredPage +
  relevance :: rat

text \<open>The state of the \<open>KnowledgeBase\<close> component that \<open>search\<close> reads and writes.\<close>

record KnowledgeBase =
  searchQuery :: string
  searchResults :: "SearchResult list"
  domains :: "DomainInfo list"

text \<open>The inner loop \<open>for (const page of pages)\<close>, pushing onto \<open>results\<close>.\<close>

fun scanPages :: "string list \<Rightarrow> StoredPage list \<Rightarrow> SearchResult list \<Rightarrow> SearchResult list" where
  "scanPages lowerQuery [] results = results"
| "scanPages lowerQuery (page # pages) results =
     (let text = toLowerCase (content page);
          matches = length (filter (\<lambda>term. str_includes text term) lowerQuery)
      in scanPages lowerQuery pages
           (if matches > 0
            then results @ [StoredPage.extend page
                   (SearchResult.fields (of_nat matches / of_nat (length lowerQuery)))]
            else results))"

text \<open>The outer loop \<open>for (const domain of domains)\<close>. The page store is the function
  \<open>getPagesByDomain\<close>; every call of it is recorded in \<open>reads\<close>.\<close>

fun scanDomains :: "(string \<Rightarrow> StoredPage list) \<Rightarrow> string list \<Rightarrow> DomainInfo list
    \<Rightarrow> string list \<times> SearchResult list \<Rightarrow> string list \<times> SearchResult list" where
  "scanDomains getPagesByDomain lowerQuery [] (reads, results) = (reads, results)"
| "scanDomains getPagesByDomain lowerQuery (d # ds) (reads, results) =
     (let pages = getPagesByDomain (DomainInfo.domain d)
      in scanDomains getPagesByDomain lowerQuery ds
           (reads @ [DomainInfo.domain d], scanPages lowerQuery pages results))"

text \<open>\<open>search\<close>. \<open>Array.prototype.sort\<close> is stable and the comparator
  \<open>b.relevance - a.relevance\<close> orders by falling relevance, which is the stable insertion
  sort on the negated relevance. The function returns the domains whose pages it read
  and the component's state afterwards; on a blank query the source returns before
  \<open>setSearchResults\<close>, so the state is the one it was given.\<close>

definition search :: "(string \<Rightarrow> StoredPage list) \<Rightarrow> KnowledgeBase \<Rightarrow> string list \<times> KnowledgeBase" where
  "search getPagesByDomain st =
     (if trim (searchQuery st) = [] then ([], st)
      else
        (let lowerQuery = splitWs (toLowerCase (searchQuery st));
             (reads, results) = scanDomains getPagesByDomain lowerQuery (domains st) ([], []);
             sorted = sort_key (\<lambda>r. - relevance r) results
         in (reads, st\<lparr>searchResults := take 50 sorted\<rparr>)))"

text \<open>The pages a search goes through, in the order it meets them.\<close>

definition corpus :: "(string \<Rightarrow> StoredPage list) \<Rightarrow> DomainInfo list \<Rightarrow> StoredPage list" where
  "corpus getPagesByDomain ds = concat (map (\<lambda>d. getPagesByDomain (DomainInfo.domain d)) ds)"

text \<open>The scoring the spec describes, for comparison with the source: the share of the
  distinct non-empty terms of the query that occur in the lower-cased content.\<close>

definition spec_terms :: "string \<Rightarrow> string list" where
  "spec_terms q = remdups (filter (\<lambda>t. t \<noteq> []) (splitWs (toLowerCase q)))"

definition spec_relevance :: "string \<Rightarrow> StoredPage \<Rightarrow> rat" where
  "spec_relevance q page =
     of_nat (length (filter (\<lambda>t. sublist t (toLowerCase (content page))) (spec_terms q)))
       / of_nat (length (spec_terms q))"

text \<open>\<open>parts.join(sep)\<close> on an array of strings.\<close>

fun join :: "string \<Rightarrow> string list \<Rightarrow> string" where
  "join sep [] = []"
| "join sep [x] = x"
| "join sep (x # y # ys) = x @ sep @ join sep (y # ys)"

text \<open>Names for what the loop body of \<open>search\<close> computes for one page: the number of
  entries of the term list that occur in the lower-cased content, the result pushed for
  the page, and the results pushed for a list of pages.\<close>

definition matchCount :: "string list \<Rightarrow> StoredPage \<Rightarrow> nat" where
  "matchCount terms page = length (filter (\<lambda>t. sublist t (toLowerCase (content page))) terms)"

definition annotate :: "string list \<Rightarrow> StoredPage \<Rightarrow> SearchResult" where
  "annotate terms page =
     StoredPage.extend page
       (SearchResult.fields (of_nat (matchCount terms page) / of_nat (length terms)))"

definition hits :: "string list \<Rightarrow> StoredPage list \<Rightarrow> SearchResult list" where
  "hits terms pages = map (annotate terms) (filter (\<lambda>p. 0 < matchCount terms p) pages)"

text \<open>The two pages of the spec's scenario, a store holding them and a component state
  with a given query.\<close>

definition ex_page1 :: StoredPage where
  "ex_page1 = \<lparr>url = ''https://a.com/1'', domain = ''a.com'',
     content = ''<title>Cats</title><p>cats are great</p>'', status = 200,
     contentSize = 45, timestamp = 1700000000000\<rparr>"

definition ex_page2 :: StoredPage where
  "ex_page2 = \<lparr>url = ''https://a.com/2'', domain = ''a.com'',
     content = ''<title>Dogs</title><p>dogs rule</p>'', status = 200,
     contentSize = 40, timestamp = 1700000000500\<rparr>"

definition ex_store :: "string \<Rightarrow> StoredPage list" where
  "ex_store d = (if d = ''a.com'' then [ex_page1, ex_page2] else [])"

definition ex_state :: "string \<Rightarrow> KnowledgeBase" where
  "ex_state q = \<lparr>searchQuery = q, searchResults = [],
     domains = [\<lparr>DomainInfo.domain = ''a.com'', pageCount = 2, totalSize = 85\<rparr>]\<rparr>"

section \<open>Plain text and titles\<close>

text \<open>\<open>content.replace(/<[^>]+>/g, " ")\<close>. At a \<open><\<close> the greedy \<open>[^>]+\<close> takes every
  code unit up to the next \<open>>\<close>; the pattern matches there when it took at least one and
  a \<open>>\<close> follows (giving some back never helps: the code unit after a shorter run is not
  \<open>>\<close>). A match becomes one space and the scan goes on behind its \<open>>\<close>; at any other
  position the code unit is copied.\<close>

function stripTags :: "string \<Rightarrow> string" where
  "stripTags [] = []"
| "stripTags (c # cs) =
     (if c = CHR ''<''
         \<and> takeWhile (\<lambda>x. x \<noteq> CHR ''>'') cs \<noteq> [] \<and> dropWhile (\<lambda>x. x \<noteq> CHR ''>'') cs \<noteq> []
      then CHR '' '' # stripTags (tl (dropWhile (\<lambda>x. x \<noteq> CHR ''>'') cs))
      else c # stripTags cs)"
  by pat_completeness auto
termination
proof (relation "measure length")
  show "wf (measure length)" by simp
next
  fix c :: char and cs :: string
  have "length (tl (dropWhile (\<lambda>x. x \<noteq> CHR ''>'') cs)) \<le> length (dropWhile (\<lambda>x. x \<noteq> CHR ''>'') cs)"
    by simp
  also have "\<dots> \<le> length cs" by (rule length_dropWhile_le)
  finally show "(tl (dropWhile (\<lambda>x. x \<noteq> CHR ''>'') cs), c # cs) \<in> measure length" by simp
next
  fix c :: char and cs :: string
  show "(cs, c # cs) \<in> measure length" by simp
qed

text \<open>\<open>text.replace(/\s+/g, " ")\<close>: every maximal run of white space becomes one space.\<close>

function collapseWs :: "string \<Rightarrow> string" where
  "collapseWs [] = []"
| "collapseWs (c # cs) =
     (if isSpace c then CHR '' '' # collapseWs (dropWhile isSpace cs) else c # collapseWs cs)"
  by pat_completeness auto
termination
proof (relation "measure length")
  show "wf (measure length)" by simp
next
  fix c :: char and cs :: string
  have "length (dropWhile isSpace cs) \<le> length cs" by (rule length_dropWhile_le)
  then show "(dropWhile isSpace cs, c # cs) \<in> measure length" by simp
next
  fix c :: char and cs :: string
  show "(cs, c # cs) \<in> measure length" by simp
qed

text \<open>The plain text of a content: tags replaced, white space collapsed.\<close>

definition plainText :: "string \<Rightarrow> string" where
  "plainText contentStr = collapseWs (stripTags contentStr)"

text \<open>What the claims say about the plain text, as predicates that compute: a tag, as the
  pattern \<open><[^>]+>\<close> has it, starts somewhere in \<open>s\<close>; and every white space of \<open>s\<close> is
  a single space with no white space next to it.\<close>

fun hasTag :: "string \<Rightarrow> bool" where
  "hasTag [] = False"
| "hasTag (c # cs) =
     ((c = CHR ''<'' \<and> takeWhile (\<lambda>x. x \<noteq> CHR ''>'') cs \<noteq> []
         \<and> dropWhile (\<lambda>x. x \<noteq> CHR ''>'') cs \<noteq> [])
      \<or> hasTag cs)"

fun singleSpaced :: "string \<Rightarrow> bool" where
  "singleSpaced [] = True"
| "singleSpaced [c] = (isSpace c \<longrightarrow> c = CHR '' '')"
| "singleSpaced (a # b # cs) =
     ((isSpace a \<longrightarrow> a = CHR '' '' \<and> \<not> isSpace b) \<and> singleSpaced (b # cs))"

text \<open>A literal of lower-case letters and signs matches at the head of \<open>s\<close> under the
  \<open>i\<close> flag: the flag folds case, and no code unit beyond ASCII folds onto an ASCII
  one.\<close>

definition startsWithCI :: "string \<Rightarrow> string \<Rightarrow> bool" where
  "startsWithCI pat s = prefix pat (toLowerCase s)"

text \<open>\<open>/<title[^>]*>([^<]*)<\/title>/i\<close> tried at the head of \<open>s\<close>; the result is the
  capture group. After \<open><title\<close> the greedy \<open>[^>]*\<close> runs to the next \<open>>\<close>, which must
  exist; the group runs to the next \<open><\<close>, where \<open></title>\<close> must stand.\<close>

definition titleAt :: "string \<Rightarrow> string option" where
  "titleAt s =
     (if startsWithCI ''<title'' s
      then (case dropWhile (\<lambda>c. c \<noteq> CHR ''>'') (drop 6 s) of
              [] \<Rightarrow> None
            | _ # r \<Rightarrow>
                if startsWithCI ''</title>'' (dropWhile (\<lambda>c. c \<noteq> CHR ''<'') r)
                then Some (takeWhile (\<lambda>c. c \<noteq> CHR ''<'') r) else None)
      else None)"

text \<open>\<open>content.match(...)\<close> without the \<open>g\<close> flag: the match at the first position that
  has one.\<close>

fun matchTitle :: "string \<Rightarrow> string option" where
  "matchTitle [] = None"
| "matchTitle (c # cs) =
     (case titleAt (c # cs) of Some g \<Rightarrow> Some g | None \<Rightarrow> matchTitle cs)"

text \<open>\<open>/^#\s+(.+)/m\<close> behind a \<open>#\<close>: \<open>\s+\<close> takes \<open>n\<close> code units of white space and
  \<open>(.+)\<close> then needs a code unit that is no line terminator, and runs to the end of the
  line. The greedy \<open>\s+\<close> starts with the whole run of white space and gives back one
  code unit at a time; it keeps at least one.\<close>

fun headingBack :: "nat \<Rightarrow> string \<Rightarrow> string option" where
  "headingBack 0 cs = None"
| "headingBack (Suc n) cs =
     (case drop (Suc n) cs of
        [] \<Rightarrow> headingBack n cs
      | c # _ \<Rightarrow>
          if isLineTerminator c then headingBack n cs
          else Some (takeWhile (\<lambda>x. \<not> isLineTerminator x) (drop (Suc n) cs)))"

definition headingAt :: "string \<Rightarrow> string option" where
  "headingAt s =
     (case s of
        [] \<Rightarrow> None
      | c # cs \<Rightarrow>
          if c = CHR ''#'' then headingBack (length (takeWhile isSpace cs)) cs else None)"

text \<open>Under the \<open>m\<close> flag \<open>^\<close> holds at the start of the input and behind every line
  terminator; \<open>lineStart\<close> says whether the head of the rest is such a position.\<close>

fun matchHeadingFrom :: "bool \<Rightarrow> string \<Rightarrow> string option" where
  "matchHeadingFrom lineStart [] = None"
| "matchHeadingFrom lineStart (c # cs) =
     (case (if lineStart then headingAt (c # cs) else None) of
        Some g \<Rightarrow> Some g
      | None \<Rightarrow> matchHeadingFrom (isLineTerminator c) cs)"

definition matchHeading :: "string \<Rightarrow> string option" where
  "matchHeading s = matchHeadingFrom True s"

text \<open>\<open>new URL(url)\<close> throws a \<open>TypeError\<close> on a string that is no absolute URL. The
  URL parser belongs to the platform; \<open>getTitle\<close> takes it as the function \<open>pathname\<close>,
  \<open>None\<close> where the parser throws and the \<open>pathname\<close> of the parsed URL otherwise.\<close>

datatype error = TypeError | RangeError

text \<open>\<open>match?.[1]?.trim()\<close>: the trimmed group of the title match, of the heading match
  when the title pattern matches nowhere, and \<open>undefined\<close> (here the empty string, falsy
  as well) when neither matches.\<close>

definition titleCandidate :: "string \<Rightarrow> string" where
  "titleCandidate contentStr =
     (case (case matchTitle contentStr of Some g \<Rightarrow> Some g
            | None \<Rightarrow> matchHeading contentStr) of
        Some g \<Rightarrow> trim g
      | None \<Rightarrow> [])"

definition getTitle :: "(string \<Rightarrow> string option) \<Rightarrow> string \<Rightarrow> string \<Rightarrow> error + string" where
  "getTitle pathname contentStr urlStr =
     (let t = titleCandidate contentStr
      in if t \<noteq> [] then Inr t
         else (case pathname urlStr of None \<Rightarrow> Inl TypeError | Some p \<Rightarrow> Inr p))"

text \<open>A URL parser for the examples: it accepts the absolute urls used below, with the
  \<open>pathname\<close> the platform gives them, and rejects every other string, as the platform
  rejects the relative reference \<open>docs/intro\<close>.\<close>

definition ex_pathname :: "string \<Rightarrow> string option" where
  "ex_pathname u =
     (if u = ''https://a.com/1'' then Some ''/1''
      else if u = ''https://a.com/2'' then Some ''/2''
      else if u = ''https://a.com/docs'' then Some ''/docs''
      else None)"


text \<open>The lines of a content: the pieces between its line terminators, in order.\<close>

fun linesOf :: "string \<Rightarrow> string list" where
  "linesOf [] = [[]]"
| "linesOf (c # cs) =
     (if isLineTerminator c then [] # linesOf cs
      else (case linesOf cs of [] \<Rightarrow> [[c]] | l # ls \<Rightarrow> (c # l) # ls))"




section \<open>Snippets\<close>

text \<open>
  \<open>getSnippet\<close> is the one function of the component whose result depends on where
  lower-casing puts the code units of a text, and no string of code units below 256
  changes its length when it is lower-cased. The snippet is therefore modelled over a
  wider alphabet: the code units below 256, U+0130 (capital I with dot above) and U+0307
  (combining dot above), the code unit that lower-casing U+0130 brings in. On these
  strings too the primitives are modelled as ECMAScript defines them.
\<close>

datatype codeUnit = Latin char | DotI | DotAbove

definition ustr :: "string \<Rightarrow> codeUnit list" where
  "ustr s = map Latin s"

text \<open>The class \<open>\s\<close>: neither of the two added code units is white space.\<close>

definition isSpaceU :: "codeUnit \<Rightarrow> bool" where
  "isSpaceU u = (case u of Latin c \<Rightarrow> isSpace c | DotI \<Rightarrow> False | DotAbove \<Rightarrow> False)"

text \<open>\<open>toLowerCase\<close>: U+0130 becomes \<open>i\<close> followed by U+0307, the one lower-case mapping
  of Unicode that \<open>toLowerCase\<close> applies and that gives two code units for one; U+0307
  has no case.\<close>

definition lowerUnit :: "codeUnit \<Rightarrow> codeUnit list" where
  "lowerUnit u =
     (case u of
        Latin c \<Rightarrow> [Latin (lowerChar c)]
      | DotI \<Rightarrow> [Latin CHR ''i'', DotAbove]
      | DotAbove \<Rightarrow> [DotAbove])"

definition toLowerCaseU :: "codeUnit list \<Rightarrow> codeUnit list" where
  "toLowerCaseU s = concat (map lowerUnit s)"

text \<open>\<open>content.replace(/<[^>]+>/g, " ")\<close>, \<open>.replace(/\s+/g, " ")\<close> and \<open>.split(/\s+/)\<close>,
  scanned as \<open>stripTags\<close>, \<open>collapseWs\<close> and \<open>splitWs\<close> scan them.\<close>

function stripTagsU :: "codeUnit list \<Rightarrow> codeUnit list" where
  "stripTagsU [] = []"
| "stripTagsU (c # cs) =
     (if c = Latin CHR ''<''
         \<and> takeWhile (\<lambda>x. x \<noteq> Latin CHR ''>'') cs \<noteq> []
         \<and> dropWhile (\<lambda>x. x \<noteq> Latin CHR ''>'') cs \<noteq> []
      then Latin CHR '' '' # stripTagsU (tl (dropWhile (\<lambda>x. x \<noteq> Latin CHR ''>'') cs))
      else c # stripTagsU cs)"
  by pat_completeness auto
termination
proof (relation "measure length")
  show "wf (measure length)" by simp
next
  fix c :: codeUnit and cs :: "codeUnit list"
  have "length (tl (dropWhile (\<lambda>x. x \<noteq> Latin CHR ''>'') cs))
      \<le> length (dropWhile (\<lambda>x. x \<noteq> Latin CHR ''>'') cs)"
    by simp
  also have "\<dots> \<le> length cs" by (rule length_dropWhile_le)
  finally show "(tl (dropWhile (\<lambda>x. x \<noteq> Latin CHR ''>'') cs), c # cs) \<in> measure length"
    by simp
next
  fix c :: codeUnit and cs :: "codeUnit list"
  show "(cs, c # cs) \<in> measure length" by simp
qed

function collapseWsU :: "codeUnit list \<Rightarrow> codeUnit list" where
  "collapseWsU [] = []"
| "collapseWsU (c # cs) =
     (if isSpaceU c then Latin CHR '' '' # collapseWsU (dropWhile isSpaceU cs)
      else c # collapseWsU cs)"
  by pat_completeness auto
termination
proof (relation "measure length")
  show "wf (measure length)" by simp
next
  fix c :: codeUnit and cs :: "codeUnit list"
  have "length (dropWhile isSpaceU cs) \<le> length cs" by (rule length_dropWhile_le)
  then show "(dropWhile isSpaceU cs, c # cs) \<in> measure length" by simp
next
  fix c :: codeUnit and cs :: "codeUnit list"
  show "(cs, c # cs) \<in> measure length" by simp
qed

function splitWsU :: "codeUnit list \<Rightarrow> codeUnit list list" where
  "splitWsU s =
     (let t = takeWhile (\<lambda>c. \<not> isSpaceU c) s;
          r = dropWhile (\<lambda>c. \<not> isSpaceU c) s
      in if r = [] then [t] else t # splitWsU (dropWhile isSpaceU r))"
  by pat_completeness auto
termination
proof (relation "measure length")
  show "wf (measure length)" by simp
next
  fix s t r :: "codeUnit list"
  assume r: "r = dropWhile (\<lambda>c. \<not> isSpaceU c) s" and ne: "r \<noteq> []"
  from ne obtain c cs where rc: "r = c # cs" by (cases r) auto
  have "isSpaceU c" using r rc hd_dropWhile [of "\<lambda>c. \<not> isSpaceU c" s] by fastforce
  then have "length (dropWhile isSpaceU r) \<le> length cs"
    using rc by (simp add: length_dropWhile_le)
  also have "length cs < length r" using rc by simp
  also have "length r \<le> length s" using r by (simp add: length_dropWhile_le)
  finally show "(dropWhile isSpaceU r, s) \<in> measure length" by simp
qed

declare splitWsU.simps [simp del]

text \<open>The constant \<open>text\<close> of \<open>getSnippet\<close>, and \<open>query.toLowerCase().split(/\s+/)[0]\<close>:
  the split never gives the empty array (were it empty, \<open>indexOf\<close> would look for the
  string \<open>undefined\<close>). The piece is taken from the query as it is typed, so a query
  that starts with white space has the empty string as its first piece.\<close>

definition snippetText :: "codeUnit list \<Rightarrow> codeUnit list" where
  "snippetText contentStr = collapseWsU (stripTagsU contentStr)"

definition firstTerm :: "codeUnit list \<Rightarrow> codeUnit list" where
  "firstTerm query =
     (case splitWsU (toLowerCaseU query) of t # _ \<Rightarrow> t | [] \<Rightarrow> ustr ''undefined'')"

text \<open>\<open>getSnippet\<close> looks the term up in the lower-cased text and cuts the window out of
  the text itself, at the position found there.\<close>

definition getSnippet :: "codeUnit list \<Rightarrow> codeUnit list \<Rightarrow> codeUnit list" where
  "getSnippet contentStr query =
     (let text = snippetText contentStr;
          idx = indexOf (toLowerCaseU text) (firstTerm query)
      in if idx = - 1 then slice text 0 200 @ ustr ''...''
         else
           (let start = max 0 (idx - 80)
            in (if start > 0 then ustr ''...'' else ustr '''')
                 @ slice text (nat start) (nat start + 200) @ ustr ''...''))"

text \<open>Two pages for the snippet examples. In the first, 200 characters of other text
  stand before the words \<open>Cats are great.\<close>; in the second, a hundred U+0130 stand
  before them.\<close>

definition ex_article :: "codeUnit list" where
  "ex_article = ustr ''<p>'' @ concat (replicate 25 (ustr ''filler. ''))
     @ ustr ''Cats are great.</p>''"

definition ex_dotted :: "codeUnit list" where
  "ex_dotted = ustr ''<p>'' @ replicate 100 DotI
     @ ustr '' Cats are great. Dogs are fine too.</p>''"

section \<open>Export\<close>

datatype ExportFormat = Json | Csv | Markdown | Html

text \<open>What \<open>downloadBlob(content, filename, mimeType)\<close> hands to the browser.\<close>

record Download =
  blobContent :: string
  filename :: string
  mimeType :: string

subsection \<open>Numbers and dates as text\<close>

text \<open>\<open>String(n)\<close> for a number that is a safe integer, an integer of size at most
  \<open>2^53 - 1\<close>, which a number of the source language holds exactly: its decimal digits,
  with a minus sign in front of a negative one. (Beyond that range \<open>String\<close> rounds the
  digits and, from \<open>10^21\<close> on, writes an exponent; the claims below are stated for safe
  integers.) \<open>digitsOf\<close> is meant for the numbers from 0 on.\<close>

definition safeInteger :: "int \<Rightarrow> bool" where
  "safeInteger n \<longleftrightarrow> - 9007199254740991 \<le> n \<and> n \<le> 9007199254740991"

definition digitChar :: "int \<Rightarrow> char" where
  "digitChar d = ''0123456789'' ! nat d"

function digitsOf :: "int \<Rightarrow> string" where
  "digitsOf n = (if n < 10 then [digitChar n] else digitsOf (n div 10) @ [digitChar (n mod 10)])"
  by pat_completeness auto
termination
  by (relation "measure nat") auto

declare digitsOf.simps [simp del]

definition numberToString :: "int \<Rightarrow> string" where
  "numberToString n = (if n < 0 then ''-'' @ digitsOf (- n) else digitsOf n)"

text \<open>\<open>String(n).padStart(w, "0")\<close> for a number \<open>n\<close> that is not negative.\<close>

definition padNumber :: "nat \<Rightarrow> int \<Rightarrow> string" where
  "padNumber w n = replicate (w - length (digitsOf n)) CHR ''0'' @ digitsOf n"

text \<open>\<open>new Date(t).toISOString()\<close> for a time value \<open>t\<close> in milliseconds since the epoch.
  A time value beyond 8.64e15 in size is an invalid date, on which \<open>toISOString\<close> throws a
  \<open>RangeError\<close>. The date of a day number is computed in the proleptic Gregorian
  calendar by eras of 400 years (146097 days) that start on 1 March; years 0 to 9999 are
  written with four digits, all others with a sign and six.\<close>

definition validTime :: "int \<Rightarrow> bool" where
  "validTime t \<longleftrightarrow> - 8640000000000000 \<le> t \<and> t \<le> 8640000000000000"

definition civilFromDays :: "int \<Rightarrow> int \<times> int \<times> int" where
  "civilFromDays days =
     (let z = days + 719468;
          era = z div 146097;
          doe = z mod 146097;
          yoe = (doe - doe div 1460 + doe div 36524 - doe div 146096) div 365;
          doy = doe - (365 * yoe + yoe div 4 - yoe div 100);
          mp = (5 * doy + 2) div 153;
          d = doy - (153 * mp + 2) div 5 + 1;
          m = (if mp < 10 then mp + 3 else mp - 9);
          y = yoe + era * 400 + (if m \<le> 2 then 1 else 0)
      in (y, m, d))"

definition yearString :: "int \<Rightarrow> string" where
  "yearString y =
     (if 0 \<le> y \<and> y \<le> 9999 then padNumber 4 y
      else (if y < 0 then ''-'' else ''+'') @ padNumber 6 \<bar>y\<bar>)"

definition toISOString :: "int \<Rightarrow> error + string" where
  "toISOString t =
     (if \<not> validTime t then Inl RangeError
      else
        (let (y, m, d) = civilFromDays (t div 86400000);
             ms = t mod 86400000
         in Inr (yearString y @ ''-'' @ padNumber 2 m @ ''-'' @ padNumber 2 d @ ''T''
                 @ padNumber 2 (ms div 3600000) @ '':'' @ padNumber 2 (ms div 60000 mod 60)
                 @ '':'' @ padNumber 2 (ms div 1000 mod 60) @ ''.'' @ padNumber 3 (ms mod 1000)
                 @ ''Z'')))"

subsection \<open>The tabular format\<close>

text \<open>\<open>str.replace(/"/g, '""')\<close> and \<open>escapeCSV\<close>.\<close>

definition doubleQuotes :: "string \<Rightarrow> string" where
  "doubleQuotes str = concat (map (\<lambda>c. if c = CHR 0x22 then [CHR 0x22, CHR 0x22] else [c]) str)"

definition escapeCSV :: "string \<Rightarrow> string" where
  "escapeCSV str =
     (if str_includes str '','' \<or> str_includes str [CHR 0x22] \<or> str_includes str [CHR 0x0A]
      then [CHR 0x22] @ doubleQuotes str @ [CHR 0x22]
      else str)"

text \<open>One row: \<open>${escapeCSV(p.url)},${escapeCSV(p.domain)},${p.status || ""},${p.contentSize},${new
  Date(p.timestamp).toISOString()}\<close>. A status of 0 is falsy and gives the empty string.\<close>

definition csvRow :: "StoredPage \<Rightarrow> error + string" where
  "csvRow p =
     (case toISOString (timestamp p) of
        Inl e \<Rightarrow> Inl e
      | Inr isoStr \<Rightarrow>
          Inr (escapeCSV (url p) @ '','' @ escapeCSV (StoredPage.domain p) @ '',''
               @ (if status p = 0 then '''' else numberToString (status p)) @ '',''
               @ numberToString (contentSize p) @ '','' @ isoStr))"

text \<open>\<open>pages.map(...)\<close> with a callback that may throw: the first throw ends the map.\<close>

fun csvRows :: "StoredPage list \<Rightarrow> error + string list" where
  "csvRows [] = Inr []"
| "csvRows (p # ps) =
     (case csvRow p of
        Inl e \<Rightarrow> Inl e
      | Inr r \<Rightarrow> (case csvRows ps of Inl e \<Rightarrow> Inl e | Inr rs \<Rightarrow> Inr (r # rs)))"

definition csvHeader :: string where
  "csvHeader = ''url,domain,status,content_size,timestamp'' @ [CHR 0x0A]"

subsection \<open>The document format\<close>

text \<open>One section of the Markdown export. The title is
  \<open>p.content.match(/<title[^>]*>([^<]*)<\/title>/i)?.[1]?.trim() || p.url\<close>.\<close>

definition markdownTitle :: "StoredPage \<Rightarrow> string" where
  "markdownTitle p =
     (case matchTitle (content p) of
        None \<Rightarrow> url p
      | Some g \<Rightarrow> if trim g \<noteq> [] then trim g else url p)"

definition markdownSection :: "StoredPage \<Rightarrow> string" where
  "markdownSection p =
     (let title = markdownTitle p;
          text = trim (collapseWs (stripTags (content p)))
      in ''## '' @ title @ [CHR 0x0A, CHR 0x0A] @ ''**URL:** '' @ url p @ [CHR 0x0A, CHR 0x0A]
           @ slice text 0 2000 @ (if length text > 2000 then ''...'' else '''')
           @ [CHR 0x0A, CHR 0x0A] @ ''---'' @ [CHR 0x0A])"

subsection \<open>The markup format\<close>

definition htmlPage :: "StoredPage \<Rightarrow> string" where
  "htmlPage p = ''<!-- URL: '' @ url p @ '' -->'' @ [CHR 0x0A] @ content p"

definition htmlDocument :: "string \<Rightarrow> StoredPage list \<Rightarrow> string" where
  "htmlDocument filenamePrefix pages =
     ''<!DOCTYPE html><html><head><meta charset='' @ [CHR 0x22] @ ''utf-8'' @ [CHR 0x22]
       @ ''><title>'' @ filenamePrefix @ '' Export</title></head><body>'' @ [CHR 0x0A]
       @ join ([CHR 0x0A, CHR 0x0A] @ ''<hr/>'' @ [CHR 0x0A, CHR 0x0A]) (map htmlPage pages)
       @ [CHR 0x0A] @ ''</body></html>''"

subsection \<open>The structured format\<close>

text \<open>The values \<open>JSON.stringify\<close> and \<open>JSON.parse\<close> work on; an object is the list of
  its members in their order.\<close>

datatype json =
    JNull
  | JBool bool
  | JNum int
  | JStr string
  | JArr "json list"
  | JObj "(string \<times> json) list"

text \<open>\<open>QuoteJSONString\<close>: the quote and the backslash get a backslash, the control
  characters their short escape or \<open>\u00XX\<close> in lower-case hexadecimal, and every other
  code unit stands for itself.\<close>

definition hexDigit :: "nat \<Rightarrow> char" where
  "hexDigit d = ''0123456789abcdef'' ! d"

definition escapeJSONChar :: "char \<Rightarrow> string" where
  "escapeJSONChar c =
     (let n = (of_char c :: nat)
      in if n = 0x08 then [CHR 0x5C, CHR ''b'']
         else if n = 0x09 then [CHR 0x5C, CHR ''t'']
         else if n = 0x0A then [CHR 0x5C, CHR ''n'']
         else if n = 0x0C then [CHR 0x5C, CHR ''f'']
         else if n = 0x0D then [CHR 0x5C, CHR ''r'']
         else if n = 0x22 then [CHR 0x5C, CHR 0x22]
         else if n = 0x5C then [CHR 0x5C, CHR 0x5C]
         else if n < 0x20 then [CHR 0x5C] @ ''u00'' @ [hexDigit (n div 16), hexDigit (n mod 16)]
         else [c])"

definition quoteJSON :: "string \<Rightarrow> string" where
  "quoteJSON s = [CHR 0x22] @ concat (map escapeJSONChar s) @ [CHR 0x22]"

text \<open>\<open>JSON.stringify(value, null, 2)\<close> below the indentation \<open>ind\<close>: an empty array or
  object is written closed; the members of any other stand on lines of their own, two
  spaces deeper, with \<open>": "\<close> behind a key.\<close>

fun serializeJSON :: "string \<Rightarrow> json \<Rightarrow> string" where
  "serializeJSON ind JNull = ''null''"
| "serializeJSON ind (JBool b) = (if b then ''true'' else ''false'')"
| "serializeJSON ind (JNum n) = numberToString n"
| "serializeJSON ind (JStr s) = quoteJSON s"
| "serializeJSON ind (JArr vs) =
     (if vs = [] then ''[]''
      else ''['' @ [CHR 0x0A] @ (ind @ ''  '')
           @ join ('','' @ [CHR 0x0A] @ (ind @ ''  ''))
               (map (\<lambda>v. serializeJSON (ind @ ''  '') v) vs)
           @ [CHR 0x0A] @ ind @ '']'')"
| "serializeJSON ind (JObj ms) =
     (if ms = [] then ''{}''
      else ''{'' @ [CHR 0x0A] @ (ind @ ''  '')
           @ join ('','' @ [CHR 0x0A] @ (ind @ ''  ''))
               (map (\<lambda>m. quoteJSON (fst m) @ '': '' @ serializeJSON (ind @ ''  '') (snd m)) ms)
           @ [CHR 0x0A] @ ind @ ''}'')"

definition stringifyJSON :: "json \<Rightarrow> string" where
  "stringifyJSON v = serializeJSON [] v"

text \<open>\<open>({ url: p.url, content: p.content, status: p.status, domain: p.domain, timestamp:
  p.timestamp })\<close>.\<close>

definition pageJSON :: "StoredPage \<Rightarrow> json" where
  "pageJSON p =
     JObj [(''url'', JStr (url p)), (''content'', JStr (content p)), (''status'', JNum (status p)),
           (''domain'', JStr (StoredPage.domain p)), (''timestamp'', JNum (timestamp p))]"

subsection \<open>\<open>exportPages\<close>\<close>

text \<open>\<open>now\<close> is the time value of \<open>new Date()\<close>; \<open>stamp\<close> is the constant \<open>timestamp\<close> of
  the source, the date part of its ISO form.\<close>

definition exportPages :: "int \<Rightarrow> StoredPage list \<Rightarrow> ExportFormat \<Rightarrow> string \<Rightarrow> error + Download" where
  "exportPages now pages format filenamePrefix =
     (case toISOString now of
        Inl e \<Rightarrow> Inl e
      | Inr isoStr \<Rightarrow>
          (let stamp = slice isoStr 0 10
           in case format of
                Json \<Rightarrow>
                  Inr \<lparr>blobContent = stringifyJSON (JArr (map pageJSON pages)),
                       filename = filenamePrefix @ ''-'' @ stamp @ ''.json'',
                       mimeType = ''application/json''\<rparr>
              | Csv \<Rightarrow>
                  (case csvRows pages of
                     Inl e \<Rightarrow> Inl e
                   | Inr rows \<Rightarrow>
                       Inr \<lparr>blobContent = csvHeader @ join [CHR 0x0A] rows,
                            filename = filenamePrefix @ ''-'' @ stamp @ ''.csv'',
                            mimeType = ''text/csv''\<rparr>)
              | Markdown \<Rightarrow>
                  Inr \<lparr>blobContent = join [CHR 0x0A] (map markdownSection pages),
                       filename = filenamePrefix @ ''-'' @ stamp @ ''.md'',
                       mimeType = ''text/markdown''\<rparr>
              | Html \<Rightarrow>
                  Inr \<lparr>blobContent = htmlDocument filenamePrefix pages,
                       filename = filenamePrefix @ ''-'' @ stamp @ ''.html'',
                       mimeType = ''text/html''\<rparr>))"

text \<open>An instant for the examples: 14 November 2023, 22:13:20 UTC.\<close>

definition ex_now :: int where
  "ex_now = 1700000000000"

text \<open>A Markdown page for the examples.\<close>

definition ex_page3 :: StoredPage where
  "ex_page3 = \<lparr>url = ''https://a.com/docs'', domain = ''a.com'',
     content = ''# Guide'' @ [CHR 0x0A] @ ''text'', status = 200,
     contentSize = 12, timestamp = 1700000001000\<rparr>"

text \<open>The claims about the tabular format, for comparison with the source: a field value
  needs quoting when it holds a comma, a double quote or a line break; a quoted field is
  the value between double quotes with every double quote in it written twice; the raw
  values of the five fields of a page; and the form of an ISO instant,
  \<open>YYYY-MM-DDTHH:mm:ss.sssZ\<close> with a year of four digits, or of a sign and six digits,
  a month from 01 to 12, a day from 01 to 31, an hour up to 23 and minutes and seconds up
  to 59.\<close>

definition needsQuoting :: "string \<Rightarrow> bool" where
  "needsQuoting s \<longleftrightarrow> CHR '','' \<in> set s \<or> CHR 0x22 \<in> set s \<or> CHR 0x0A \<in> set s"

definition spec_csvField :: "string \<Rightarrow> string" where
  "spec_csvField s =
     (if needsQuoting s
      then [CHR 0x22] @ concat (map (\<lambda>c. if c = CHR 0x22 then [c, c] else [c]) s) @ [CHR 0x22]
      else s)"

definition isoText :: "int \<Rightarrow> string" where
  "isoText t = (case toISOString t of Inr s \<Rightarrow> s | Inl e \<Rightarrow> [])"

definition csvFieldValues :: "StoredPage \<Rightarrow> string list" where
  "csvFieldValues p =
     [url p, StoredPage.domain p, (if status p = 0 then [] else numberToString (status p)),
      numberToString (contentSize p), isoText (timestamp p)]"

definition isDigit :: "char \<Rightarrow> bool" where
  "isDigit c \<longleftrightarrow> c \<in> set ''0123456789''"

text \<open>The number a string of digits denotes.\<close>

definition decimalValue :: "string \<Rightarrow> int" where
  "decimalValue s = foldl (\<lambda>a c. 10 * a + (int (of_char c) - 48)) 0 s"

definition isoInstantForm :: "string \<Rightarrow> bool" where
  "isoInstantForm s \<longleftrightarrow>
     (\<exists>year mo dd hh mm ss mmm.
        s = year @ ''-'' @ mo @ ''-'' @ dd @ ''T'' @ hh @ '':'' @ mm @ '':'' @ ss @ ''.'' @ mmm @ ''Z''
      \<and> ((length year = 4 \<and> (\<forall>c\<in>set year. isDigit c))
         \<or> (\<exists>sign digits. year = sign # digits \<and> (sign = CHR ''+'' \<or> sign = CHR ''-'')
               \<and> length digits = 6 \<and> (\<forall>c\<in>set digits. isDigit c)))
      \<and> length mo = 2 \<and> length dd = 2 \<and> length hh = 2 \<and> length mm = 2 \<and> length ss = 2
      \<and> length mmm = 3
      \<and> (\<forall>c\<in>set (mo @ dd @ hh @ mm @ ss @ mmm). isDigit c)
      \<and> 1 \<le> decimalValue mo \<and> decimalValue mo \<le> 12
      \<and> 1 \<le> decimalValue dd \<and> decimalValue dd \<le> 31
      \<and> decimalValue hh \<le> 23 \<and> decimalValue mm \<le> 59 \<and> decimalValue ss \<le> 59)"

text \<open>A page whose time value is no date.\<close>

definition ex_page4 :: StoredPage where
  "ex_page4 = \<lparr>url = ''https://a.com/late'', domain = ''a.com'', content = ''late'',
     status = 200, contentSize = 4, timestamp = 8640000000000001\<rparr>"

text \<open>A page whose url holds a comma and a double quote.\<close>

definition ex_page5 :: StoredPage where
  "ex_page5 = \<lparr>url = ''https://a.com/q?x=1,2&y='' @ [CHR 0x22] @ ''z'' @ [CHR 0x22],
     domain = ''a.com'', content = ''query'', status = 0, contentSize = 5,
     timestamp = 951782400000\<rparr>"

section \<open>Export of a single page: the file name prefix\<close>

text \<open>\<open>exportSinglePage\<close> passes
  \<open>page.url.replace(/[^a-zA-Z0-9]/g, "_").slice(0, 50)\<close> to \<open>exportPages\<close> as the
  file name prefix.\<close>

definition singlePagePrefix :: "StoredPage \<Rightarrow> string" where
  "singlePagePrefix page = slice (replaceNonAlnum (url page)) 0 50"

section \<open>Facts about the string primitives\<close>

lemma splitWs_unfold:
  "splitWs s =
     (if dropWhile (\<lambda>c. \<not> isSpace c) s = [] then [takeWhile (\<lambda>c. \<not> isSpace c) s]
      else takeWhile (\<lambda>c. \<not> isSpace c) s
             # splitWs (dropWhile isSpace (dropWhile (\<lambda>c. \<not> isSpace c) s)))"
proof -
  have "splitWs s =
     (let t = takeWhile (\<lambda>c. \<not> isSpace c) s;
          r = dropWhile (\<lambda>c. \<not> isSpace c) s
      in if r = [] then [t] else t # splitWs (dropWhile isSpace r))"
    by (rule splitWs.simps)
  then show ?thesis by (simp only: Let_def)
qed

lemma splitWs_last:
  assumes "dropWhile (\<lambda>c. \<not> isSpace c) s = []"
  shows "splitWs s = [takeWhile (\<lambda>c. \<not> isSpace c) s]"
  by (subst splitWs_unfold) (simp only: assms if_True simp_thms)

lemma splitWs_more:
  assumes "dropWhile (\<lambda>c. \<not> isSpace c) s \<noteq> []"
  shows "splitWs s = takeWhile (\<lambda>c. \<not> isSpace c) s
                # splitWs (dropWhile isSpace (dropWhile (\<lambda>c. \<not> isSpace c) s))"
  by (subst splitWs_unfold) (simp only: assms if_False)

lemma splitWs_no_space: "t \<in> set (splitWs s) \<Longrightarrow> c \<in> set t \<Longrightarrow> \<not> isSpace c"
proof (induction s rule: splitWs.induct)
  case (1 s)
  let ?t = "takeWhile (\<lambda>c. \<not> isSpace c) s"
  have first: "t = ?t \<Longrightarrow> \<not> isSpace c"
    using "1.prems"(2) by (auto dest: set_takeWhileD)
  show ?case
  proof (cases "dropWhile (\<lambda>c. \<not> isSpace c) s = []")
    case True
    then have "splitWs s = [?t]" by (rule splitWs_last)
    with "1.prems"(1) have "t = ?t" by simp
    then show ?thesis by (rule first)
  next
    case False
    then have "splitWs s = ?t # splitWs (dropWhile isSpace (dropWhile (\<lambda>c. \<not> isSpace c) s))"
      by (rule splitWs_more)
    with "1.prems"(1) have "t = ?t
        \<or> t \<in> set (splitWs (dropWhile isSpace (dropWhile (\<lambda>c. \<not> isSpace c) s)))"
      by simp
    then show ?thesis
    proof
      assume "t = ?t" then show ?thesis by (rule first)
    next
      assume "t \<in> set (splitWs (dropWhile isSpace (dropWhile (\<lambda>c. \<not> isSpace c) s)))"
      then show ?thesis using "1.IH" [OF refl refl False] "1.prems"(2) by simp
    qed
  qed
qed

lemma splitWs_plain:
  assumes "\<forall>c\<in>set t. \<not> isSpace c"
  shows "splitWs t = [t]"
proof -
  have "dropWhile (\<lambda>c. \<not> isSpace c) t = []" using assms by simp
  then have "splitWs t = [takeWhile (\<lambda>c. \<not> isSpace c) t]" by (rule splitWs_last)
  moreover have "takeWhile (\<lambda>c. \<not> isSpace c) t = t" using assms by simp
  ultimately show ?thesis by simp
qed

lemma splitWs_step:
  assumes t: "\<forall>c\<in>set t. \<not> isSpace c" and w: "w \<noteq> []" "\<forall>c\<in>set w. isSpace c"
    and s: "s = [] \<or> \<not> isSpace (hd s)"
  shows "splitWs (t @ w @ s) = t # splitWs s"
proof -
  from w obtain a ws where aw: "w = a # ws" by (cases w) auto
  with w have a: "isSpace a" by simp
  have tk: "takeWhile (\<lambda>c. \<not> isSpace c) (t @ w @ s) = t"
    using t a aw by (simp add: takeWhile_append2)
  have dr: "dropWhile (\<lambda>c. \<not> isSpace c) (t @ w @ s) = w @ s"
    using t a aw by (simp add: dropWhile_append2)
  have dw: "dropWhile isSpace (w @ s) = s"
  proof -
    have "dropWhile isSpace (w @ s) = dropWhile isSpace s"
      using w by (simp add: dropWhile_append2)
    also have "\<dots> = s" using s by (cases s) auto
    finally show ?thesis .
  qed
  have "dropWhile (\<lambda>c. \<not> isSpace c) (t @ w @ s) \<noteq> []" using dr w by simp
  then have "splitWs (t @ w @ s) = takeWhile (\<lambda>c. \<not> isSpace c) (t @ w @ s)
      # splitWs (dropWhile isSpace (dropWhile (\<lambda>c. \<not> isSpace c) (t @ w @ s)))"
    by (rule splitWs_more)
  then show ?thesis by (simp only: tk dr dw)
qed

lemma splitWs_join:
  "ts \<noteq> [] \<Longrightarrow> \<forall>t\<in>set ts. t \<noteq> [] \<and> (\<forall>c\<in>set t. \<not> isSpace c) \<Longrightarrow> splitWs (join '' '' ts) = ts"
proof (induction "'' ''" ts rule: join.induct)
  case 1
  then show ?case by simp
next
  case (2 x)
  then have "splitWs x = [x]" by (intro splitWs_plain) simp
  then show ?case by simp
next
  case (3 x y ys)
  have hd: "join '' '' (y # ys) = [] \<or> \<not> isSpace (hd (join '' '' (y # ys)))"
    using "3.prems" by (cases y; cases ys) auto
  have "splitWs (x @ '' '' @ join '' '' (y # ys)) = x # splitWs (join '' '' (y # ys))"
    using "3.prems" hd by (intro splitWs_step) (auto simp: isSpace_def)
  with 3 show ?case by simp
qed

lemma splitWs_edges:
  "s \<noteq> [] \<Longrightarrow> \<not> isSpace (hd s) \<Longrightarrow> \<not> isSpace (last s) \<Longrightarrow> [] \<notin> set (splitWs s)"
proof (induction s rule: splitWs.induct)
  case (1 s)
  let ?t = "takeWhile (\<lambda>c. \<not> isSpace c) s"
  let ?r = "dropWhile (\<lambda>c. \<not> isSpace c) s"
  have t: "?t \<noteq> []" using "1.prems" by (cases s) auto
  show ?case
  proof (cases "?r = []")
    case True
    then have "splitWs s = [?t]" by (rule splitWs_last)
    then show ?thesis using t by simp
  next
    case False
    let ?s' = "dropWhile isSpace ?r"
    have "last (?t @ ?r) = last ?r" using False by (rule last_appendR)
    then have lr: "last ?r = last s" by simp
    have ne: "?s' \<noteq> []"
    proof
      assume "?s' = []"
      then have "\<forall>c\<in>set ?r. isSpace c" by (simp only: dropWhile_eq_Nil_conv)
      moreover have "last ?r \<in> set ?r" using False by (rule last_in_set)
      ultimately have "isSpace (last ?r)" by (rule bspec)
      with lr "1.prems" show False by simp
    qed
    have h: "\<not> isSpace (hd ?s')" using ne by (rule hd_dropWhile)
    have "last (takeWhile isSpace ?r @ ?s') = last ?s'" using ne by (rule last_appendR)
    then have "last ?r = last ?s'" by simp
    with lr "1.prems" have l: "\<not> isSpace (last ?s')" by simp
    have "[] \<notin> set (splitWs ?s')" using "1.IH" [OF refl refl False ne h l] .
    moreover have "splitWs s = ?t # splitWs ?s'" using False by (rule splitWs_more)
    ultimately show ?thesis using t by simp
  qed
qed

lemma of_char_lowerChar:
  "(of_char (lowerChar c) :: nat) =
     (let n = of_char c
      in if (65 \<le> n \<and> n \<le> 90) \<or> (192 \<le> n \<and> n \<le> 222 \<and> n \<noteq> 215) then n + 32 else n)"
  by (auto simp: lowerChar_def Let_def take_bit_nat_eq_self)

lemma isSpace_lowerChar [simp]: "isSpace (lowerChar c) = isSpace c"
  unfolding isSpace_def of_char_lowerChar Let_def by auto

lemma dropWhile_length_eq: "length (dropWhile P xs) = length xs \<Longrightarrow> dropWhile P xs = xs"
proof (cases xs)
  case Nil then show ?thesis by simp
next
  case (Cons x ys)
  assume l: "length (dropWhile P xs) = length xs"
  show ?thesis
  proof (cases "P x")
    case True
    have "length (dropWhile P ys) \<le> length ys" by (rule length_dropWhile_le)
    with True Cons l show ?thesis by simp
  next
    case False with Cons show ?thesis by simp
  qed
qed

lemma trim_fixed: 
  assumes "trim s = s" "s \<noteq> []" shows "\<not> isSpace (hd s) \<and> \<not> isSpace (last s)"
proof -
  let ?d = "dropWhile isSpace s"
  have "length (trim s) \<le> length ?d"
    using length_dropWhile_le [of isSpace "rev ?d"] by (simp add: trim_def)
  moreover have "length ?d \<le> length s" by (rule length_dropWhile_le)
  ultimately have "length ?d = length s" using assms by simp
  then have d: "?d = s" by (rule dropWhile_length_eq)
  with assms have h: "\<not> isSpace (hd s)" using hd_dropWhile [of isSpace s] by simp
  from assms d have "rev (dropWhile isSpace (rev s)) = s" by (simp add: trim_def)
  then have "dropWhile isSpace (rev s) = rev s" by (metis rev_rev_ident)
  moreover have "rev s \<noteq> []" using assms by simp
  ultimately have "\<not> isSpace (hd (rev s))" using hd_dropWhile [of isSpace "rev s"] by simp
  then have "\<not> isSpace (last s)" using assms by (simp add: hd_rev)
  with h show ?thesis by simp
qed

lemma terms_nonempty:
  assumes "q \<noteq> []" "trim q = q"
  shows "[] \<notin> set (splitWs (toLowerCase q))"
proof -
  have e: "\<not> isSpace (hd q) \<and> \<not> isSpace (last q)" using assms(2,1) by (rule trim_fixed)
  have "toLowerCase q \<noteq> []" using assms(1) by (simp add: toLowerCase_def)
  moreover have "\<not> isSpace (hd (toLowerCase q))"
    using e assms(1) by (simp add: toLowerCase_def hd_map)
  moreover have "\<not> isSpace (last (toLowerCase q))"
    using e assms(1) by (simp add: toLowerCase_def last_map)
  ultimately show ?thesis by (rule splitWs_edges)
qed

lemma toLowerCase_join:
  "toLowerCase (join sep ts) = join (toLowerCase sep) (map toLowerCase ts)"
  by (induction sep ts rule: join.induct) (simp_all add: toLowerCase_def)

lemma terms_of_join:
  assumes "ts \<noteq> []" "\<forall>t\<in>set ts. t \<noteq> [] \<and> (\<forall>c\<in>set t. \<not> isSpace c)"
  shows "splitWs (toLowerCase (join '' '' ts)) = map toLowerCase ts"
proof -
  have sp: "toLowerCase '' '' = '' ''" by (simp add: toLowerCase_def lowerChar_def)
  have "map toLowerCase ts \<noteq> []" using assms(1) by simp
  moreover have "\<forall>t\<in>set (map toLowerCase ts). t \<noteq> [] \<and> (\<forall>c\<in>set t. \<not> isSpace c)"
    using assms(2) by (auto simp: toLowerCase_def)
  ultimately have "splitWs (join '' '' (map toLowerCase ts)) = map toLowerCase ts"
    by (rule splitWs_join)
  then show ?thesis by (simp add: toLowerCase_join sp)
qed

section \<open>Search: what the loops compute\<close>

lemma str_includes_sublist: "str_includes s t \<longleftrightarrow> sublist t s"
  by (induction s) (simp_all add: sublist_Cons_right)

lemma str_includes_eq: "str_includes s = (\<lambda>t. sublist t s)"
  by (rule ext) (rule str_includes_sublist)

lemma scanPages_hits: "scanPages lq pages results = results @ hits lq pages"
  by (induction pages arbitrary: results)
     (simp_all add: hits_def annotate_def matchCount_def str_includes_eq Let_def)

lemma hits_append: "hits lq (xs @ ys) = hits lq xs @ hits lq ys"
  by (simp add: hits_def)

lemma hits_Nil: "hits lq [] = []"
  by (simp add: hits_def)

lemma scanDomains_hits:
  "scanDomains gp lq ds (reads, results) =
     (reads @ map DomainInfo.domain ds, results @ hits lq (corpus gp ds))"
  by (induction ds arbitrary: reads results)
     (simp_all add: corpus_def scanPages_hits hits_append hits_Nil Let_def)

lemma search_nonblank:
  "trim (searchQuery st) \<noteq> [] \<Longrightarrow>
   search gp st =
     (map DomainInfo.domain (domains st),
      st\<lparr>searchResults :=
          take 50 (sort_key (\<lambda>r. - relevance r)
            (hits (splitWs (toLowerCase (searchQuery st))) (corpus gp (domains st))))\<rparr>)"
  by (simp add: search_def scanDomains_hits Let_def)

lemma search_blank: "trim (searchQuery st) = [] \<Longrightarrow> search gp st = ([], st)"
  by (simp add: search_def)

lemma relevance_annotate:
  "relevance (annotate lq p) = of_nat (matchCount lq p) / of_nat (length lq)"
  by (simp add: annotate_def StoredPage.extend_def SearchResult.fields_def)

lemma truncate_annotate: "StoredPage.truncate (annotate lq p) = p"
  by (simp add: annotate_def StoredPage.extend_def SearchResult.fields_def StoredPage.truncate_def)

lemma sorted_desc:
  "sorted_wrt (\<lambda>a b. relevance b \<le> relevance a) (sort_key (\<lambda>r. - relevance r) xs)"
proof -
  have "sorted (map (\<lambda>r. - relevance r) (sort_key (\<lambda>r. - relevance r) xs))"
    by (rule sorted_sort_key)
  then show ?thesis by (simp add: sorted_wrt_map)
qed

lemma stable_desc:
  "filter (\<lambda>r. relevance r = k) (sort_key (\<lambda>r. - relevance r) xs) = filter (\<lambda>r. relevance r = k) xs"
  using sort_key_stable [of "\<lambda>r. - relevance r" "- k" xs] by simp

lemma take_top:
  assumes "sorted_wrt R xs" "a \<in> set (take n xs)" "b \<in> set (drop n xs)"
  shows "R a b"
proof -
  have "sorted_wrt R (take n xs @ drop n xs)" using assms(1) by simp
  then have "\<forall>x\<in>set (take n xs). \<forall>y\<in>set (drop n xs). R x y"
    unfolding sorted_wrt_append by (elim conjE)
  then show ?thesis using assms(2,3) by simp
qed

lemma mset_minus_take: "mset xs - mset (take n xs) = mset (drop n xs)"
proof -
  have "mset (take n xs @ drop n xs) = mset (take n xs) + mset (drop n xs)"
    by (rule mset_append)
  then have "mset xs = mset (take n xs) + mset (drop n xs)" by simp
  then show ?thesis by simp
qed


lemma splitWs_not_Nil: "splitWs s \<noteq> []"
  by (subst splitWs.simps) (simp add: Let_def)

lemma matchCount_le: "matchCount terms p \<le> length terms"
  by (simp add: matchCount_def)

lemma hits_relevance_pos:
  assumes "r \<in> set (hits terms pages)" shows "0 < relevance r"
proof -
  from assms obtain p where p: "r = annotate terms p" "0 < matchCount terms p"
    by (auto simp: hits_def)
  have "0 < length terms" using p(2) matchCount_le [of terms p] by linarith
  with p show ?thesis by (simp add: relevance_annotate)
qed

lemma filter_hits:
  "map StoredPage.truncate (filter (\<lambda>r. relevance r = k) (hits terms pages)) =
   filter (\<lambda>p. 0 < matchCount terms p
        \<and> of_nat (matchCount terms p) / of_nat (length terms) = k) pages"
  by (induction pages) (simp_all add: hits_def relevance_annotate truncate_annotate)

lemma mset_take_subset: "mset (take n xs) \<subseteq># mset xs"
proof -
  have "mset (take n xs @ drop n xs) = mset (take n xs) + mset (drop n xs)"
    by (rule mset_append)
  then have "mset xs = mset (take n xs) + mset (drop n xs)" by simp
  then show ?thesis by (metis mset_subset_eq_add_left)
qed

lemma matchCount_pos:
  "0 < matchCount terms p \<longleftrightarrow> (\<exists>t\<in>set terms. sublist t (toLowerCase (content p)))"
  by (simp add: matchCount_def filter_empty_conv)

lemma hits_pages:
  "map StoredPage.truncate (hits terms pages)
     = filter (\<lambda>p. \<exists>t\<in>set terms. sublist t (toLowerCase (content p))) pages"
  by (induction pages) (simp_all add: hits_def truncate_annotate matchCount_pos)

lemma hits_pages_set:
  assumes "set terms' = set terms"
  shows "map StoredPage.truncate (hits terms' pages) = map StoredPage.truncate (hits terms pages)"
  unfolding hits_pages assms ..

lemma uncapped_pages:
  assumes "length hs \<le> 50"
  shows "mset (map StoredPage.truncate (take 50 (sort_key (\<lambda>r. - relevance r) hs)))
       = mset (map StoredPage.truncate hs)"
proof -
  have "length (sort_key (\<lambda>r. - relevance r) hs) \<le> 50" using assms by simp
  then have "take 50 (sort_key (\<lambda>r. - relevance r) hs) = sort_key (\<lambda>r. - relevance r) hs"
    by simp
  then show ?thesis by simp
qed

section \<open>Search: scoring, query terms, ranking\<close>

text \<open>
  Claim C1, as the source has it. For a query without white space at its edges, the terms
  are the pieces of the lower-cased query between its runs of white space, kept as a list
  (none of them empty, a repeated term listed as often as it is written). The results of
  \<open>search\<close> are the pages of the corpus with at least one listed term in their
  lower-cased content, ranked and cut to 50; the relevance of each is the number of
  entries of the term list that occur as a substring of the lower-cased content, divided
  by the length of the term list. Only the presence of a term counts: two contents holding
  the same terms get the same count, however often a term occurs in them.
\<close>

theorem C1_relevance_counts_listed_terms:
  assumes "searchQuery st \<noteq> []" and "trim (searchQuery st) = searchQuery st"
  shows "let terms = splitWs (toLowerCase (searchQuery st));
             pages = corpus gp (domains st);
             results = searchResults (snd (search gp st))
         in [] \<notin> set terms
          \<and> results = take 50 (sort_key (\<lambda>r. - relevance r) (hits terms pages))
          \<and> (\<forall>r\<in>set results.
                StoredPage.truncate r \<in> set pages
              \<and> relevance r
                  = of_nat (matchCount terms (StoredPage.truncate r)) / of_nat (length terms))
          \<and> (\<forall>p p'. (\<forall>t\<in>set terms. sublist t (toLowerCase (content p))
                                     = sublist t (toLowerCase (content p')))
                \<longrightarrow> matchCount terms p = matchCount terms p')"
proof -
  let ?terms = "splitWs (toLowerCase (searchQuery st))"
  let ?pages = "corpus gp (domains st)"
  let ?results = "searchResults (snd (search gp st))"
  have nb: "trim (searchQuery st) \<noteq> []" using assms by simp
  have a: "[] \<notin> set ?terms" using assms by (rule terms_nonempty)
  have b: "?results = take 50 (sort_key (\<lambda>r. - relevance r) (hits ?terms ?pages))"
    by (simp add: search_nonblank [OF nb])
  have c: "StoredPage.truncate r \<in> set ?pages
      \<and> relevance r = of_nat (matchCount ?terms (StoredPage.truncate r)) / of_nat (length ?terms)"
    if "r \<in> set ?results" for r
  proof -
    from that b have "r \<in> set (sort_key (\<lambda>r. - relevance r) (hits ?terms ?pages))"
      by (auto dest: in_set_takeD)
    then have "r \<in> set (hits ?terms ?pages)" by simp
    then obtain p where "p \<in> set ?pages" "r = annotate ?terms p" by (auto simp: hits_def)
    then show ?thesis by (simp add: relevance_annotate truncate_annotate)
  qed
  have d: "matchCount ?terms p = matchCount ?terms p'"
    if "\<forall>t\<in>set ?terms. sublist t (toLowerCase (content p)) = sublist t (toLowerCase (content p'))"
    for p p'
  proof -
    have "filter (\<lambda>t. sublist t (toLowerCase (content p))) ?terms
        = filter (\<lambda>t. sublist t (toLowerCase (content p'))) ?terms"
      using that by (intro filter_cong) auto
    then show ?thesis by (simp add: matchCount_def)
  qed
  show ?thesis unfolding Let_def using a b c d by blast
qed

text \<open>The theorem at the query \<open>cats cats dogs\<close> over the two pages of the scenario.\<close>

theorem C1_relevance_counts_listed_terms_witness:
  "searchQuery (ex_state ''cats cats dogs'') \<noteq> []
   \<and> trim (searchQuery (ex_state ''cats cats dogs'')) = searchQuery (ex_state ''cats cats dogs'')
   \<and> searchResults (snd (search ex_store (ex_state ''cats cats dogs'')))
       = take 50 (sort_key (\<lambda>r. - relevance r)
           (hits (splitWs (toLowerCase (searchQuery (ex_state ''cats cats dogs''))))
              (corpus ex_store (domains (ex_state ''cats cats dogs'')))))
   \<and> map relevance (searchResults (snd (search ex_store (ex_state ''cats cats dogs''))))
       = [2 / 3, 1 / 3]"
proof -
  have h1: "searchQuery (ex_state ''cats cats dogs'') \<noteq> []" by code_simp
  have h2: "trim (searchQuery (ex_state ''cats cats dogs'')) = searchQuery (ex_state ''cats cats dogs'')"
    by code_simp
  have v: "map relevance (searchResults (snd (search ex_store (ex_state ''cats cats dogs''))))
       = [2 / 3, 1 / 3]" by code_simp
  from C1_relevance_counts_listed_terms [OF h1 h2, of ex_store] h1 h2 v
  show ?thesis unfolding Let_def by blast
qed

text \<open>
  The claim as the spec words it counts distinct terms. The query \<open>cats cats dogs\<close> has
  the two distinct terms \<open>cats\<close> and \<open>dogs\<close>, and each page holds one of them, so the
  spec's ratio is 1/2 for both pages; the source lists \<open>cats\<close> twice and scores the pages
  2/3 and 1/3.
\<close>

theorem C1_distinct_terms_counterexample:
  "map (\<lambda>r. (url r, relevance r)) (searchResults (snd (search ex_store (ex_state ''cats cats dogs''))))
     = [(''https://a.com/1'', 2 / 3), (''https://a.com/2'', 1 / 3)]
   \<and> spec_relevance ''cats cats dogs'' ex_page1 = 1 / 2
   \<and> spec_relevance ''cats cats dogs'' ex_page2 = 1 / 2"
proof -
  have "map (\<lambda>r. (url r, relevance r)) (searchResults (snd (search ex_store (ex_state ''cats cats dogs''))))
     = [(''https://a.com/1'', 2 / 3), (''https://a.com/2'', 1 / 3)]" by code_simp
  moreover have "spec_relevance ''cats cats dogs'' ex_page1 = 1 / 2" by code_simp
  moreover have "spec_relevance ''cats cats dogs'' ex_page2 = 1 / 2" by code_simp
  ultimately show ?thesis by simp
qed

text \<open>
  Claim C2, as the source has it. On a blank query \<open>search\<close> returns at once: it reads no
  domain and leaves the component's state, the result list included, as it was. On any
  other query it reads every domain of the state, in order, and matches the pages against
  the pieces of the lower-cased query between its runs of white space, kept as a list:
  the results are the hits of exactly these terms, ranked and cut to 50. No term holds
  white space; for a query without white space at its edges no term is empty; a query
  that joins non-empty words free of white space by single spaces has those words,
  lower-cased, as its terms. A page is a hit exactly when one of the terms occurs in its
  lower-cased content, so a query with the same set of terms (a term written once more,
  the terms in another order) returns the same pages as long as no more than 50 match;
  their scores and their order may differ.
\<close>

theorem C2_query_terms:
  "let q = searchQuery st; terms = splitWs (toLowerCase q); pages = corpus gp (domains st)
   in (trim q = [] \<longrightarrow> search gp st = ([], st))
    \<and> (trim q \<noteq> [] \<longrightarrow>
         fst (search gp st) = map DomainInfo.domain (domains st)
       \<and> searchResults (snd (search gp st))
           = take 50 (sort_key (\<lambda>r. - relevance r) (hits terms pages))
       \<and> map StoredPage.truncate (hits terms pages)
           = filter (\<lambda>p. \<exists>t\<in>set terms. sublist t (toLowerCase (content p))) pages
       \<and> (\<forall>t\<in>set terms. \<forall>c\<in>set t. \<not> isSpace c)
       \<and> (trim q = q \<longrightarrow> [] \<notin> set terms)
       \<and> (\<forall>ts. ts \<noteq> [] \<and> (\<forall>t\<in>set ts. t \<noteq> [] \<and> (\<forall>c\<in>set t. \<not> isSpace c))
               \<and> q = join '' '' ts \<longrightarrow> terms = map toLowerCase ts)
       \<and> (\<forall>st'. domains st' = domains st \<and> trim (searchQuery st') \<noteq> []
               \<and> set (splitWs (toLowerCase (searchQuery st'))) = set terms
               \<and> length (hits terms pages) \<le> 50 \<longrightarrow>
             mset (map StoredPage.truncate (searchResults (snd (search gp st'))))
               = mset (map StoredPage.truncate (searchResults (snd (search gp st))))))"
proof -
  let ?q = "searchQuery st"
  let ?terms = "splitWs (toLowerCase ?q)"
  let ?pages = "corpus gp (domains st)"
  have a: "trim ?q = [] \<longrightarrow> search gp st = ([], st)" by (simp add: search_blank)
  have b: "fst (search gp st) = map DomainInfo.domain (domains st)
       \<and> searchResults (snd (search gp st))
           = take 50 (sort_key (\<lambda>r. - relevance r) (hits ?terms ?pages))"
    if "trim ?q \<noteq> []"
    by (simp add: search_nonblank [OF that])
  have c: "map StoredPage.truncate (hits ?terms ?pages)
           = filter (\<lambda>p. \<exists>t\<in>set ?terms. sublist t (toLowerCase (content p))) ?pages"
    by (rule hits_pages)
  have d: "\<forall>t\<in>set ?terms. \<forall>c\<in>set t. \<not> isSpace c" using splitWs_no_space by blast
  have e: "trim ?q = ?q \<longrightarrow> [] \<notin> set ?terms" if "trim ?q \<noteq> []"
  proof
    assume t: "trim ?q = ?q"
    with that have "?q \<noteq> []" by auto
    then show "[] \<notin> set ?terms" using t by (rule terms_nonempty)
  qed
  have f: "\<forall>ts. ts \<noteq> [] \<and> (\<forall>t\<in>set ts. t \<noteq> [] \<and> (\<forall>c\<in>set t. \<not> isSpace c))
               \<and> ?q = join '' '' ts \<longrightarrow> ?terms = map toLowerCase ts"
    using terms_of_join by auto
  have g: "mset (map StoredPage.truncate (searchResults (snd (search gp st'))))
               = mset (map StoredPage.truncate (searchResults (snd (search gp st))))"
    if nb: "trim ?q \<noteq> []" and dm: "domains st' = domains st" and nb': "trim (searchQuery st') \<noteq> []"
      and ts: "set (splitWs (toLowerCase (searchQuery st'))) = set ?terms"
      and le: "length (hits ?terms ?pages) \<le> 50" for st'
  proof -
    let ?terms' = "splitWs (toLowerCase (searchQuery st'))"
    have pg: "map StoredPage.truncate (hits ?terms' ?pages)
        = map StoredPage.truncate (hits ?terms ?pages)" using ts by (rule hits_pages_set)
    then have "length (map StoredPage.truncate (hits ?terms' ?pages))
        = length (map StoredPage.truncate (hits ?terms ?pages))" by simp
    then have le': "length (hits ?terms' ?pages) \<le> 50" using le by simp
    have "searchResults (snd (search gp st'))
        = take 50 (sort_key (\<lambda>r. - relevance r) (hits ?terms' ?pages))"
      by (simp add: search_nonblank [OF nb'] dm)
    then have "mset (map StoredPage.truncate (searchResults (snd (search gp st'))))
        = mset (map StoredPage.truncate (hits ?terms' ?pages))"
      using uncapped_pages [OF le'] by simp
    moreover have "searchResults (snd (search gp st))
        = take 50 (sort_key (\<lambda>r. - relevance r) (hits ?terms ?pages))"
      by (simp add: search_nonblank [OF nb])
    then have "mset (map StoredPage.truncate (searchResults (snd (search gp st))))
        = mset (map StoredPage.truncate (hits ?terms ?pages))"
      using uncapped_pages [OF le] by simp
    ultimately show ?thesis using pg by simp
  qed
  show ?thesis unfolding Let_def using a b c d e f g by blast
qed

text \<open>The theorem at a blank query, at the query \<open>Cats Dogs\<close>, and at the query
  \<open>dogs cats  cats\<close>, which has the same set of terms.\<close>

theorem C2_query_terms_witness:
  "trim (searchQuery (ex_state ''   '')) = []
   \<and> search ex_store (ex_state ''   '') = ([], ex_state ''   '')
   \<and> trim (searchQuery (ex_state ''Cats Dogs'')) \<noteq> []
   \<and> fst (search ex_store (ex_state ''Cats Dogs'')) = [''a.com'']
   \<and> splitWs (toLowerCase (searchQuery (ex_state ''Cats Dogs''))) = [''cats'', ''dogs'']
   \<and> searchResults (snd (search ex_store (ex_state ''Cats Dogs'')))
       = take 50 (sort_key (\<lambda>r. - relevance r)
           (hits [''cats'', ''dogs''] (corpus ex_store (domains (ex_state ''Cats Dogs'')))))
   \<and> map url (searchResults (snd (search ex_store (ex_state ''Cats Dogs''))))
       = [''https://a.com/1'', ''https://a.com/2'']
   \<and> splitWs (toLowerCase (searchQuery (ex_state ''dogs cats  cats''))) = [''dogs'', ''cats'', ''cats'']
   \<and> mset (map StoredPage.truncate (searchResults (snd (search ex_store (ex_state ''dogs cats  cats'')))))
       = mset (map StoredPage.truncate (searchResults (snd (search ex_store (ex_state ''Cats Dogs'')))))"
proof -
  have h1: "trim (searchQuery (ex_state ''   '')) = []" by code_simp
  have h2: "trim (searchQuery (ex_state ''Cats Dogs'')) \<noteq> []" by code_simp
  have h3: "trim (searchQuery (ex_state ''dogs cats  cats'')) \<noteq> []" by code_simp
  have s1: "splitWs (toLowerCase (searchQuery (ex_state ''Cats Dogs''))) = [''cats'', ''dogs'']"
    by code_simp
  have s2: "splitWs (toLowerCase (searchQuery (ex_state ''dogs cats  cats'')))
      = [''dogs'', ''cats'', ''cats'']" by code_simp
  have d1: "map DomainInfo.domain (domains (ex_state ''Cats Dogs'')) = [''a.com'']" by code_simp
  have d2: "domains (ex_state ''dogs cats  cats'') = domains (ex_state ''Cats Dogs'')"
    by (simp add: ex_state_def)
  have l1: "length (hits [''cats'', ''dogs''] (corpus ex_store (domains (ex_state ''Cats Dogs'')))) \<le> 50"
    by code_simp
  have u1: "map url (searchResults (snd (search ex_store (ex_state ''Cats Dogs''))))
       = [''https://a.com/1'', ''https://a.com/2'']" by code_simp
  have e1: "set [''dogs'', ''cats'', ''cats''] = set [''cats'', ''dogs'']" by auto
  note T0 = C2_query_terms [of "ex_state ''   ''" ex_store, unfolded Let_def,
      THEN conjunct1, THEN mp, OF h1]
  note T1 = C2_query_terms [of "ex_state ''Cats Dogs''" ex_store, unfolded Let_def,
      THEN conjunct2, THEN mp, OF h2]
  note G = T1 [THEN conjunct2, THEN conjunct2, THEN conjunct2, THEN conjunct2, THEN conjunct2,
      THEN conjunct2, THEN spec, of "ex_state ''dogs cats  cats''", THEN mp]
  have r1: "fst (search ex_store (ex_state ''Cats Dogs'')) = [''a.com'']"
    using T1 [THEN conjunct1] by (simp only: d1)
  have r2: "searchResults (snd (search ex_store (ex_state ''Cats Dogs'')))
       = take 50 (sort_key (\<lambda>r. - relevance r)
           (hits [''cats'', ''dogs''] (corpus ex_store (domains (ex_state ''Cats Dogs'')))))"
    using T1 [THEN conjunct2, THEN conjunct1] by (simp only: s1)
  have pre: "domains (ex_state ''dogs cats  cats'') = domains (ex_state ''Cats Dogs'')
      \<and> trim (searchQuery (ex_state ''dogs cats  cats'')) \<noteq> []
      \<and> set (splitWs (toLowerCase (searchQuery (ex_state ''dogs cats  cats''))))
          = set (splitWs (toLowerCase (searchQuery (ex_state ''Cats Dogs''))))
      \<and> length (hits (splitWs (toLowerCase (searchQuery (ex_state ''Cats Dogs''))))
            (corpus ex_store (domains (ex_state ''Cats Dogs'')))) \<le> 50"
    unfolding s1 s2 using d2 h3 e1 l1 by (intro conjI)
  have r3: "mset (map StoredPage.truncate (searchResults (snd (search ex_store (ex_state ''dogs cats  cats'')))))
       = mset (map StoredPage.truncate (searchResults (snd (search ex_store (ex_state ''Cats Dogs'')))))"
    using pre by (rule G)
  show ?thesis
    by (intro conjI) (rule h1 T0 h2 r1 s1 r2 u1 s2 r3)+
qed

text \<open>
  The claim as the spec words it fails in two places. White space at an edge of the query
  adds an empty term: \<open>" cats"\<close> splits into the empty string and \<open>cats\<close>, the empty
  string occurs in every content, and the search returns both pages where \<open>"cats"\<close>
  returns one. And a blank query does not produce an empty result list: the results of
  the search before stay in the state.
\<close>

theorem C2_edge_whitespace_counterexample:
  "splitWs (toLowerCase '' cats'') = ['''', ''cats'']
   \<and> splitWs (toLowerCase ''cats'') = [''cats'']
   \<and> map url (searchResults (snd (search ex_store (ex_state '' cats''))))
       = [''https://a.com/1'', ''https://a.com/2'']
   \<and> map url (searchResults (snd (search ex_store (ex_state ''cats''))))
       = [''https://a.com/1'']
   \<and> map url (searchResults (snd (search ex_store
         ((ex_state ''   '')\<lparr>searchResults := [annotate [''dogs''] ex_page2]\<rparr>))))
       = [''https://a.com/2'']"
proof -
  have "splitWs (toLowerCase '' cats'') = ['''', ''cats'']" by code_simp
  moreover have "splitWs (toLowerCase ''cats'') = [''cats'']" by code_simp
  moreover have "map url (searchResults (snd (search ex_store (ex_state '' cats''))))
       = [''https://a.com/1'', ''https://a.com/2'']" by code_simp
  moreover have "map url (searchResults (snd (search ex_store (ex_state ''cats''))))
       = [''https://a.com/1'']" by code_simp
  moreover have "map url (searchResults (snd (search ex_store
         ((ex_state ''   '')\<lparr>searchResults := [annotate [''dogs''] ex_page2]\<rparr>))))
       = [''https://a.com/2'']" by code_simp
  ultimately show ?thesis by simp
qed

text \<open>
  Claim C3. For every query that is not blank, every result of \<open>search\<close> has a relevance
  above 0; the results are in falling order of relevance; results of equal relevance
  stand in the order of their pages in the corpus (for each relevance, the pages of the
  results with it are an initial part of the corpus pages scoring it); the result list
  holds 50 entries or all matching pages if these are fewer; and every matching page
  left out scores no more than any page kept.
\<close>

theorem C3_ranked_and_capped:
  assumes "trim (searchQuery st) \<noteq> []"
  shows "let terms = splitWs (toLowerCase (searchQuery st));
             pages = corpus gp (domains st);
             results = searchResults (snd (search gp st))
         in (\<forall>r\<in>set results. 0 < relevance r)
          \<and> sorted_wrt (\<lambda>a b. relevance b \<le> relevance a) results
          \<and> (\<forall>k. prefix (map StoredPage.truncate (filter (\<lambda>r. relevance r = k) results))
                   (filter (\<lambda>p. 0 < matchCount terms p
                       \<and> of_nat (matchCount terms p) / of_nat (length terms) = k) pages))
          \<and> length results = min 50 (length (hits terms pages))
          \<and> mset results \<subseteq># mset (hits terms pages)
          \<and> (\<forall>r\<in>set results. \<forall>h\<in>#(mset (hits terms pages) - mset results).
                relevance h \<le> relevance r)"
proof -
  let ?terms = "splitWs (toLowerCase (searchQuery st))"
  let ?pages = "corpus gp (domains st)"
  let ?H = "hits ?terms ?pages"
  let ?S = "sort_key (\<lambda>r. - relevance r) ?H"
  let ?results = "searchResults (snd (search gp st))"
  have res: "?results = take 50 ?S" by (simp add: search_nonblank [OF assms])
  have srt: "sorted_wrt (\<lambda>a b. relevance b \<le> relevance a) ?S" by (rule sorted_desc)
  have a: "\<forall>r\<in>set ?results. 0 < relevance r"
  proof
    fix r assume "r \<in> set ?results"
    then have "r \<in> set ?S" unfolding res by (rule in_set_takeD)
    then have "r \<in> set ?H" by simp
    then show "0 < relevance r" by (rule hits_relevance_pos)
  qed
  have b: "sorted_wrt (\<lambda>a b. relevance b \<le> relevance a) ?results"
    unfolding res using srt by (rule sorted_wrt_take)
  have c: "prefix (map StoredPage.truncate (filter (\<lambda>r. relevance r = k) ?results))
                   (filter (\<lambda>p. 0 < matchCount ?terms p
                       \<and> of_nat (matchCount ?terms p) / of_nat (length ?terms) = k) ?pages)" for k
  proof -
    have "prefix (take 50 ?S) ?S" by (rule take_is_prefix)
    then have "prefix (filter (\<lambda>r. relevance r = k) (take 50 ?S)) (filter (\<lambda>r. relevance r = k) ?S)"
      by (rule filter_mono_prefix)
    then have "prefix (filter (\<lambda>r. relevance r = k) ?results) (filter (\<lambda>r. relevance r = k) ?H)"
      by (simp only: res stable_desc)
    then have "prefix (map StoredPage.truncate (filter (\<lambda>r. relevance r = k) ?results))
        (map StoredPage.truncate (filter (\<lambda>r. relevance r = k) ?H))"
      by (rule map_mono_prefix)
    then show ?thesis by (simp only: filter_hits)
  qed
  have d: "length ?results = min 50 (length ?H)" unfolding res by (simp add: min.commute)
  have e: "mset ?results \<subseteq># mset ?H"
    using mset_take_subset [of 50 ?S] by (simp add: res)
  have f: "\<forall>r\<in>set ?results. \<forall>h\<in>#(mset ?H - mset ?results). relevance h \<le> relevance r"
  proof (intro ballI)
    fix r h
    assume r: "r \<in> set ?results" and h: "h \<in># mset ?H - mset ?results"
    have "mset ?H - mset ?results = mset ?S - mset (take 50 ?S)" by (simp add: res)
    also have "\<dots> = mset (drop 50 ?S)" by (rule mset_minus_take)
    finally have hd: "h \<in> set (drop 50 ?S)" using h by simp
    have rt: "r \<in> set (take 50 ?S)" using r by (simp only: res)
    show "relevance h \<le> relevance r" using take_top [OF srt rt hd] .
  qed
  show ?thesis unfolding Let_def using a b c d e f by blast
qed

text \<open>The theorem at the query \<open>cats dogs\<close> of the spec's scenario: both pages, each
  with relevance 1/2, in their order in the store.\<close>

theorem C3_ranked_and_capped_witness:
  "trim (searchQuery (ex_state ''cats dogs'')) \<noteq> []
   \<and> map (\<lambda>r. (url r, relevance r)) (searchResults (snd (search ex_store (ex_state ''cats dogs''))))
       = [(''https://a.com/1'', 1 / 2), (''https://a.com/2'', 1 / 2)]
   \<and> sorted_wrt (\<lambda>a b. relevance b \<le> relevance a)
        (searchResults (snd (search ex_store (ex_state ''cats dogs''))))
   \<and> length (searchResults (snd (search ex_store (ex_state ''cats dogs''))))
       = min 50 (length (hits (splitWs (toLowerCase (searchQuery (ex_state ''cats dogs''))))
                    (corpus ex_store (domains (ex_state ''cats dogs'')))))"
proof -
  have h: "trim (searchQuery (ex_state ''cats dogs'')) \<noteq> []" by code_simp
  have v: "map (\<lambda>r. (url r, relevance r)) (searchResults (snd (search ex_store (ex_state ''cats dogs''))))
       = [(''https://a.com/1'', 1 / 2), (''https://a.com/2'', 1 / 2)]" by code_simp
  from C3_ranked_and_capped [OF h, of ex_store] h v
  show ?thesis unfolding Let_def by blast
qed

section \<open>Plain text and first occurrence\<close>

lemma tagHead_iff:
  "takeWhile (\<lambda>x. x \<noteq> CHR ''>'') cs \<noteq> [] \<and> dropWhile (\<lambda>x. x \<noteq> CHR ''>'') cs \<noteq> []
   \<longleftrightarrow> cs \<noteq> [] \<and> hd cs \<noteq> CHR ''>'' \<and> CHR ''>'' \<in> set cs"
  by (cases cs) (auto simp: dropWhile_eq_Nil_conv)

lemma set_stripTags: "set (stripTags s) \<subseteq> insert CHR '' '' (set s)"
proof (induction s rule: stripTags.induct)
  case 1
  show ?case by simp
next
  case (2 c cs)
  let ?r = "dropWhile (\<lambda>x. x \<noteq> CHR ''>'') cs"
  have "set (tl ?r) \<subseteq> set cs"
    by (metis list.set_sel(2) set_dropWhileD subsetI tl_Nil)
  with 2 show ?case by (auto split: if_splits)
qed

lemma stripTags_tagHead:
  assumes "stripTags cs \<noteq> []" "hd (stripTags cs) \<noteq> CHR ''>''" "CHR ''>'' \<in> set (stripTags cs)"
  shows "cs \<noteq> [] \<and> hd cs \<noteq> CHR ''>'' \<and> CHR ''>'' \<in> set cs"
proof -
  have a: "cs \<noteq> []" using assms(1) by auto
  have "CHR ''>'' \<in> insert CHR '' '' (set cs)" using assms(3) set_stripTags by blast
  then have b: "CHR ''>'' \<in> set cs" by simp
  have c: "hd cs \<noteq> CHR ''>''"
  proof
    assume "hd cs = CHR ''>''"
    with a obtain ds where "cs = CHR ''>'' # ds" by (cases cs) auto
    then have "hd (stripTags cs) = CHR ''>''" by simp
    with assms(2) show False by simp
  qed
  from a b c show ?thesis by simp
qed

lemma noTag_stripTags: "\<not> hasTag (stripTags s)"
proof (induction s rule: stripTags.induct)
  case 1
  show ?case by simp
next
  case (2 c cs)
  show ?case
  proof (cases "c = CHR ''<'' \<and> takeWhile (\<lambda>x. x \<noteq> CHR ''>'') cs \<noteq> []
        \<and> dropWhile (\<lambda>x. x \<noteq> CHR ''>'') cs \<noteq> []")
    case True
    with "2.IH"(1) show ?thesis by simp
  next
    case False
    then have eq: "stripTags (c # cs) = c # stripTags cs" by auto
    have ih: "\<not> hasTag (stripTags cs)" using "2.IH"(2) False by blast
    have "\<not> (c = CHR ''<'' \<and> takeWhile (\<lambda>x. x \<noteq> CHR ''>'') (stripTags cs) \<noteq> []
        \<and> dropWhile (\<lambda>x. x \<noteq> CHR ''>'') (stripTags cs) \<noteq> [])"
    proof
      assume h: "c = CHR ''<'' \<and> takeWhile (\<lambda>x. x \<noteq> CHR ''>'') (stripTags cs) \<noteq> []
        \<and> dropWhile (\<lambda>x. x \<noteq> CHR ''>'') (stripTags cs) \<noteq> []"
      then have "stripTags cs \<noteq> [] \<and> hd (stripTags cs) \<noteq> CHR ''>'' \<and> CHR ''>'' \<in> set (stripTags cs)"
        using tagHead_iff [of "stripTags cs"] by blast
      then have "cs \<noteq> [] \<and> hd cs \<noteq> CHR ''>'' \<and> CHR ''>'' \<in> set cs"
        using stripTags_tagHead by blast
      then have "takeWhile (\<lambda>x. x \<noteq> CHR ''>'') cs \<noteq> [] \<and> dropWhile (\<lambda>x. x \<noteq> CHR ''>'') cs \<noteq> []"
        using tagHead_iff [of cs] by blast
      with h False show False by blast
    qed
    with ih show ?thesis unfolding eq by simp
  qed
qed

lemma set_collapseWs: "set (collapseWs s) \<subseteq> insert CHR '' '' (set s)"
proof (induction s rule: collapseWs.induct)
  case 1
  show ?case by simp
next
  case (2 c cs)
  have "set (dropWhile isSpace cs) \<subseteq> set cs" by (auto dest: set_dropWhileD)
  with 2 show ?case by (auto split: if_splits)
qed

lemma collapseWs_tagHead:
  assumes "collapseWs cs \<noteq> []" "hd (collapseWs cs) \<noteq> CHR ''>''" "CHR ''>'' \<in> set (collapseWs cs)"
  shows "cs \<noteq> [] \<and> hd cs \<noteq> CHR ''>'' \<and> CHR ''>'' \<in> set cs"
proof -
  have a: "cs \<noteq> []" using assms(1) by auto
  have "CHR ''>'' \<in> insert CHR '' '' (set cs)" using assms(3) set_collapseWs by blast
  then have b: "CHR ''>'' \<in> set cs" by simp
  have c: "hd cs \<noteq> CHR ''>''"
  proof
    assume "hd cs = CHR ''>''"
    with a obtain ds where "cs = CHR ''>'' # ds" by (cases cs) auto
    then have "hd (collapseWs cs) = CHR ''>''" by (simp add: isSpace_def)
    with assms(2) show False by simp
  qed
  from a b c show ?thesis by simp
qed

lemma noTag_dropWhile: "\<not> hasTag s \<Longrightarrow> \<not> hasTag (dropWhile P s)"
  by (induction s) auto

lemma noTag_collapseWs: "\<not> hasTag s \<Longrightarrow> \<not> hasTag (collapseWs s)"
proof (induction s rule: collapseWs.induct)
  case 1
  show ?case by simp
next
  case (2 c cs)
  have tl: "\<not> hasTag cs" using "2.prems" by simp
  show ?case
  proof (cases "isSpace c")
    case True
    have "\<not> hasTag (dropWhile isSpace cs)" using tl by (rule noTag_dropWhile)
    with "2.IH"(1) True show ?thesis by simp
  next
    case False
    have ih: "\<not> hasTag (collapseWs cs)" using "2.IH"(2) False tl by blast
    have "\<not> (c = CHR ''<'' \<and> takeWhile (\<lambda>x. x \<noteq> CHR ''>'') (collapseWs cs) \<noteq> []
        \<and> dropWhile (\<lambda>x. x \<noteq> CHR ''>'') (collapseWs cs) \<noteq> [])"
    proof
      assume h: "c = CHR ''<'' \<and> takeWhile (\<lambda>x. x \<noteq> CHR ''>'') (collapseWs cs) \<noteq> []
        \<and> dropWhile (\<lambda>x. x \<noteq> CHR ''>'') (collapseWs cs) \<noteq> []"
      then have "collapseWs cs \<noteq> [] \<and> hd (collapseWs cs) \<noteq> CHR ''>'' \<and> CHR ''>'' \<in> set (collapseWs cs)"
        using tagHead_iff [of "collapseWs cs"] by blast
      then have "cs \<noteq> [] \<and> hd cs \<noteq> CHR ''>'' \<and> CHR ''>'' \<in> set cs"
        using collapseWs_tagHead by blast
      then have "takeWhile (\<lambda>x. x \<noteq> CHR ''>'') cs \<noteq> [] \<and> dropWhile (\<lambda>x. x \<noteq> CHR ''>'') cs \<noteq> []"
        using tagHead_iff [of cs] by blast
      with h "2.prems" show False by simp
    qed
    with ih False show ?thesis by simp
  qed
qed

lemma singleSpaced_Cons:
  "singleSpaced (a # xs) \<longleftrightarrow>
     (isSpace a \<longrightarrow> a = CHR '' '' \<and> (xs \<noteq> [] \<longrightarrow> \<not> isSpace (hd xs))) \<and> singleSpaced xs"
  by (cases xs) auto

lemma collapseWs_head:
  "s = [] \<or> \<not> isSpace (hd s) \<Longrightarrow> collapseWs s = [] \<or> \<not> isSpace (hd (collapseWs s))"
  by (cases s) auto

lemma singleSpaced_collapseWs: "singleSpaced (collapseWs s)"
proof (induction s rule: collapseWs.induct)
  case 1
  show ?case by simp
next
  case (2 c cs)
  show ?case
  proof (cases "isSpace c")
    case True
    let ?d = "dropWhile isSpace cs"
    have "?d = [] \<or> \<not> isSpace (hd ?d)" using hd_dropWhile [of isSpace cs] by blast
    then have "collapseWs ?d = [] \<or> \<not> isSpace (hd (collapseWs ?d))" by (rule collapseWs_head)
    moreover have "singleSpaced (collapseWs ?d)" using "2.IH"(1) True by blast
    ultimately have "singleSpaced (CHR '' '' # collapseWs ?d)"
      by (subst singleSpaced_Cons) auto
    with True show ?thesis by simp
  next
    case False
    have "singleSpaced (collapseWs cs)" using "2.IH"(2) False by blast
    then have "singleSpaced (c # collapseWs cs)" using False by (subst singleSpaced_Cons) auto
    with False show ?thesis by simp
  qed
qed

lemma indexOfFrom_none: "\<not> sublist t s \<Longrightarrow> indexOfFrom k s t = - 1"
  by (induction s arbitrary: k) (auto simp: sublist_Cons_right)

lemma indexOfFrom_some:
  "sublist t s \<Longrightarrow>
   \<exists>i\<le>length s. indexOfFrom k s t = int (k + i) \<and> prefix t (drop i s)
      \<and> (\<forall>j<i. \<not> prefix t (drop j s))"
proof (induction s arbitrary: k)
  case Nil
  then show ?case by simp
next
  case (Cons c cs)
  show ?case
  proof (cases "prefix t (c # cs)")
    case True
    then have "indexOfFrom k (c # cs) t = int (k + 0) \<and> prefix t (drop 0 (c # cs))
      \<and> (\<forall>j<0. \<not> prefix t (drop j (c # cs)))" by simp
    then show ?thesis by blast
  next
    case False
    with Cons.prems have "sublist t cs" by (simp add: sublist_Cons_right)
    from Cons.IH [OF this, of "Suc k"] obtain i where i: "i \<le> length cs"
      "indexOfFrom (Suc k) cs t = int (Suc k + i)" "prefix t (drop i cs)"
      "\<forall>j<i. \<not> prefix t (drop j cs)" by blast
    have "\<forall>j<Suc i. \<not> prefix t (drop j (c # cs))"
    proof (intro allI impI)
      fix j assume "j < Suc i"
      then show "\<not> prefix t (drop j (c # cs))" using False i(4) by (cases j) auto
    qed
    moreover have "indexOfFrom k (c # cs) t = int (k + Suc i)" using False i(2) by simp
    moreover have "prefix t (drop (Suc i) (c # cs))" using i(3) by simp
    moreover have "Suc i \<le> length (c # cs)" using i(1) by simp
    ultimately show ?thesis by blast
  qed
qed

section \<open>Snippets: where the window is cut\<close>

lemma getSnippet_absent:
  assumes "\<not> sublist (firstTerm query) (toLowerCaseU (snippetText contentStr))"
  shows "getSnippet contentStr query = take 200 (snippetText contentStr) @ ustr ''...''"
proof -
  have "indexOf (toLowerCaseU (snippetText contentStr)) (firstTerm query) = - 1"
    unfolding indexOf_def using assms by (rule indexOfFrom_none)
  then show ?thesis by (simp add: getSnippet_def slice_def Let_def)
qed

lemma getSnippet_present:
  assumes "sublist (firstTerm query) (toLowerCaseU (snippetText contentStr))"
  shows "\<exists>i\<le>length (toLowerCaseU (snippetText contentStr)).
           prefix (firstTerm query) (drop i (toLowerCaseU (snippetText contentStr)))
         \<and> (\<forall>j<i. \<not> prefix (firstTerm query) (drop j (toLowerCaseU (snippetText contentStr))))
         \<and> getSnippet contentStr query
             = (if 80 < i then ustr ''...'' else [])
                 @ take 200 (drop (i - 80) (snippetText contentStr)) @ ustr ''...''"
proof -
  let ?txt = "snippetText contentStr"
  let ?tm = "firstTerm query"
  from indexOfFrom_some [OF assms, of 0] obtain i where i: "i \<le> length (toLowerCaseU ?txt)"
    "indexOf (toLowerCaseU ?txt) ?tm = int i" "prefix ?tm (drop i (toLowerCaseU ?txt))"
    "\<forall>j<i. \<not> prefix ?tm (drop j (toLowerCaseU ?txt))"
    unfolding indexOf_def by auto
  have st: "nat (max 0 (int i - 80)) = i - 80" by simp
  have pos: "(0 < max 0 (int i - 80)) = (80 < i)" by auto
  have "getSnippet contentStr query
      = (if 80 < i then ustr ''...'' else []) @ take 200 (drop (i - 80) ?txt) @ ustr ''...''"
    unfolding getSnippet_def Let_def i(2) slice_def st pos by (simp add: ustr_def)
  then show ?thesis using i(1,3,4) by blast
qed

text \<open>
  Claim C6 fails on the code, at two kinds of input. The term is the first piece of the
  query as typed, so for the query \<open>" cats"\<close> it is the empty string, found at position 0:
  on a text that holds \<open>Cats\<close> at position 201 the snippet is the first 200 characters of
  the text, without the term, where the query \<open>"cats"\<close> gives the window that starts at
  121 and holds it. And the position of the term is found in the lower-cased text but the
  window is cut from the text itself: behind a hundred U+0130, each lower-cased to two
  code units, \<open>Cats\<close> stands at 102 in the text and \<open>cats\<close> at 202 in the lower-cased
  text, so the window starts at 122, behind the occurrence, and does not hold the term.
\<close>

theorem C6_getSnippet_misses_match:
  "firstTerm (ustr '' cats'') = []
   \<and> firstTerm (ustr ''cats'') = ustr ''cats''
   \<and> indexOf (toLowerCaseU (snippetText ex_article)) (ustr ''cats'') = 201
   \<and> getSnippet ex_article (ustr '' cats'')
       = ustr '' filler. filler. filler. filler. filler. filler. filler. filler. filler. filler. filler. filler. filler. filler. filler. filler. filler. filler. filler. filler. filler. filler. filler. filler. filler....''
   \<and> getSnippet ex_article (ustr ''cats'')
       = ustr ''...filler. filler. filler. filler. filler. filler. filler. filler. filler. filler. Cats are great. ...''
   \<and> take 4 (drop 102 (snippetText ex_dotted)) = ustr ''Cats''
   \<and> indexOf (toLowerCaseU (snippetText ex_dotted)) (ustr ''cats'') = 202
   \<and> getSnippet ex_dotted (ustr ''cats'') = ustr ''... are fine too. ...''"
proof -
  have "firstTerm (ustr '' cats'') = []" by code_simp
  moreover have "firstTerm (ustr ''cats'') = ustr ''cats''" by code_simp
  moreover have "indexOf (toLowerCaseU (snippetText ex_article)) (ustr ''cats'') = 201"
    by code_simp
  moreover have "getSnippet ex_article (ustr '' cats'')
       = ustr '' filler. filler. filler. filler. filler. filler. filler. filler. filler. filler. filler. filler. filler. filler. filler. filler. filler. filler. filler. filler. filler. filler. filler. filler. filler....''"
    by code_simp
  moreover have "getSnippet ex_article (ustr ''cats'')
       = ustr ''...filler. filler. filler. filler. filler. filler. filler. filler. filler. filler. Cats are great. ...''"
    by code_simp
  moreover have "take 4 (drop 102 (snippetText ex_dotted)) = ustr ''Cats''" by code_simp
  moreover have "indexOf (toLowerCaseU (snippetText ex_dotted)) (ustr ''cats'') = 202"
    by code_simp
  moreover have "getSnippet ex_dotted (ustr ''cats'') = ustr ''... are fine too. ...''"
    by code_simp
  ultimately show ?thesis by (intro conjI)
qed

section \<open>The title and heading patterns\<close>






lemma titleCandidate_title: "matchTitle c = Some g \<Longrightarrow> titleCandidate c = trim g"
  by (simp add: titleCandidate_def)

lemma titleCandidate_heading:
  "matchTitle c = None \<Longrightarrow> matchHeading c = Some g \<Longrightarrow> titleCandidate c = trim g"
  by (simp add: titleCandidate_def)

lemma titleCandidate_none:
  "matchTitle c = None \<Longrightarrow> matchHeading c = None \<Longrightarrow> titleCandidate c = []"
  by (simp add: titleCandidate_def)

lemma getTitle_found: "titleCandidate c \<noteq> [] \<Longrightarrow> getTitle pn c u = Inr (titleCandidate c)"
  by (simp add: getTitle_def)

lemma getTitle_fallback:
  "titleCandidate c = [] \<Longrightarrow>
   getTitle pn c u = (case pn u of None \<Rightarrow> Inl TypeError | Some p \<Rightarrow> Inr p)"
  by (simp add: getTitle_def)







lemma linesOf_not_Nil: "linesOf s \<noteq> []"
  by (induction s) (auto split: list.splits)


lemma lineTerminator_space: "isLineTerminator c \<Longrightarrow> isSpace c"
  by (auto simp: isLineTerminator_def isSpace_def)









section \<open>Titles\<close>




text \<open>
  Claim C9. With a url that does not parse, \<open>getTitle\<close> throws a \<open>TypeError\<close> exactly
  when no non-empty trimmed text was matched, which is the case for every content with no
  title element of non-blank text and no heading line; with a url that parses it
  returns a string for every content, the matched text or else the \<open>pathname\<close>.
\<close>

theorem C9_getTitle_needs_parseable_url:
  "(pn u = None \<longrightarrow> (getTitle pn c u = Inl TypeError \<longleftrightarrow> titleCandidate c = []))
   \<and> ((\<forall>g. matchTitle c = Some g \<longrightarrow> trim g = []) \<and> matchHeading c = None
        \<longrightarrow> titleCandidate c = [])
   \<and> (\<forall>p. pn u = Some p \<longrightarrow>
         getTitle pn c u = Inr (if titleCandidate c = [] then p else titleCandidate c))"
proof -
  have a: "pn u = None \<longrightarrow> (getTitle pn c u = Inl TypeError \<longleftrightarrow> titleCandidate c = [])"
    by (auto simp: getTitle_def Let_def)
  have b: "(\<forall>g. matchTitle c = Some g \<longrightarrow> trim g = []) \<and> matchHeading c = None
        \<longrightarrow> titleCandidate c = []"
    by (cases "matchTitle c") (simp_all add: titleCandidate_def)
  have c: "\<forall>p. pn u = Some p \<longrightarrow>
         getTitle pn c u = Inr (if titleCandidate c = [] then p else titleCandidate c)"
    by (auto simp: getTitle_def Let_def)
  show ?thesis using a b c by blast
qed

text \<open>The theorem at a content with neither title nor heading: with the relative
  reference \<open>docs/intro\<close> \<open>getTitle\<close> throws, with an absolute url it returns the path.\<close>

theorem C9_getTitle_needs_parseable_url_witness:
  "ex_pathname ''docs/intro'' = None
   \<and> matchTitle ''plain text'' = None \<and> matchHeading ''plain text'' = None
   \<and> titleCandidate ''plain text'' = []
   \<and> getTitle ex_pathname ''plain text'' ''docs/intro'' = Inl TypeError
   \<and> ex_pathname ''https://a.com/docs'' = Some ''/docs''
   \<and> getTitle ex_pathname ''plain text'' ''https://a.com/docs'' = Inr ''/docs''"
proof -
  have p0: "ex_pathname ''docs/intro'' = None" by code_simp
  have n1: "matchTitle ''plain text'' = None" by code_simp
  have n2: "matchHeading ''plain text'' = None" by code_simp
  have p1: "ex_pathname ''https://a.com/docs'' = Some ''/docs''" by code_simp
  from C9_getTitle_needs_parseable_url [of ex_pathname "''docs/intro''" "''plain text''"] n1 n2
  have tc: "titleCandidate ''plain text'' = []" by simp
  from C9_getTitle_needs_parseable_url [of ex_pathname "''docs/intro''" "''plain text''"] p0 tc
  have r1: "getTitle ex_pathname ''plain text'' ''docs/intro'' = Inl TypeError" by blast
  from C9_getTitle_needs_parseable_url [of ex_pathname "''https://a.com/docs''" "''plain text''"] p1 tc
  have r2: "getTitle ex_pathname ''plain text'' ''https://a.com/docs'' = Inr ''/docs''" by simp
  show ?thesis using p0 n1 n2 tc r1 p1 r2 by blast
qed

section \<open>Export: trimmed plain text and dates\<close>

lemma hasTag_append: "hasTag xs \<Longrightarrow> hasTag (xs @ ys)"
proof (induction xs)
  case Nil
  then show ?case by simp
next
  case (Cons c cs)
  show ?case
  proof (cases "hasTag cs")
    case True
    with Cons.IH show ?thesis by simp
  next
    case False
    with Cons.prems have h: "c = CHR ''<'' \<and> takeWhile (\<lambda>x. x \<noteq> CHR ''>'') cs \<noteq> []
        \<and> dropWhile (\<lambda>x. x \<noteq> CHR ''>'') cs \<noteq> []" by simp
    then have "cs \<noteq> [] \<and> hd cs \<noteq> CHR ''>'' \<and> CHR ''>'' \<in> set cs"
      using tagHead_iff [of cs] by blast
    then have "cs @ ys \<noteq> [] \<and> hd (cs @ ys) \<noteq> CHR ''>'' \<and> CHR ''>'' \<in> set (cs @ ys)"
      by simp
    then have "takeWhile (\<lambda>x. x \<noteq> CHR ''>'') (cs @ ys) \<noteq> []
        \<and> dropWhile (\<lambda>x. x \<noteq> CHR ''>'') (cs @ ys) \<noteq> []"
      using tagHead_iff [of "cs @ ys"] by blast
    with h show ?thesis by simp
  qed
qed

lemma rev_trailing: "rev (dropWhile P (rev xs)) @ rev (takeWhile P (rev xs)) = xs"
proof -
  have "rev (takeWhile P (rev xs) @ dropWhile P (rev xs)) = rev (rev xs)"
    by (simp only: takeWhile_dropWhile_id)
  then show ?thesis by (simp only: rev_append rev_rev_ident)
qed

lemma trim_split:
  "\<exists>pre post. s = pre @ trim s @ post"
proof -
  let ?d = "dropWhile isSpace s"
  have "takeWhile isSpace s @ ?d = s" by (rule takeWhile_dropWhile_id)
  moreover have "trim s @ rev (takeWhile isSpace (rev ?d)) = ?d"
    unfolding trim_def by (rule rev_trailing)
  ultimately have "s = takeWhile isSpace s @ trim s @ rev (takeWhile isSpace (rev ?d))"
    by simp
  then show ?thesis by blast
qed

lemma noTag_suffix: "\<not> hasTag (xs @ ys) \<Longrightarrow> \<not> hasTag ys"
  by (induction xs) auto

lemma noTag_trim: assumes "\<not> hasTag s" shows "\<not> hasTag (trim s)"
proof -
  obtain pre post where s: "s = pre @ trim s @ post" using trim_split by blast
  with assms have "\<not> hasTag (pre @ trim s @ post)" by simp
  then have "\<not> hasTag (trim s @ post)" by (rule noTag_suffix)
  then show ?thesis using hasTag_append by blast
qed

lemma singleSpaced_append: "singleSpaced (xs @ ys) \<Longrightarrow> singleSpaced xs \<and> singleSpaced ys"
proof (induction xs)
  case Nil
  then show ?case by simp
next
  case (Cons a xs)
  from Cons.prems have tl: "singleSpaced (xs @ ys)" by (simp add: singleSpaced_Cons)
  with Cons.IH have ih: "singleSpaced xs" "singleSpaced ys" by simp_all
  from Cons.prems have "isSpace a \<longrightarrow> a = CHR '' '' \<and> (xs @ ys \<noteq> [] \<longrightarrow> \<not> isSpace (hd (xs @ ys)))"
    by (simp add: singleSpaced_Cons)
  then have "isSpace a \<longrightarrow> a = CHR '' '' \<and> (xs \<noteq> [] \<longrightarrow> \<not> isSpace (hd xs))"
    by (cases xs) auto
  with ih show ?case by (simp add: singleSpaced_Cons)
qed

lemma singleSpaced_trim: assumes "singleSpaced s" shows "singleSpaced (trim s)"
proof -
  obtain pre post where s: "s = pre @ trim s @ post" using trim_split by blast
  with assms have "singleSpaced (pre @ trim s @ post)" by simp
  then have "singleSpaced (trim s @ post)" using singleSpaced_append by blast
  then show ?thesis using singleSpaced_append by blast
qed

lemma trim_edges: "trim s = [] \<or> (\<not> isSpace (hd (trim s)) \<and> \<not> isSpace (last (trim s)))"
proof (cases "trim s = []")
  case True
  then show ?thesis by simp
next
  case False
  let ?d = "dropWhile isSpace s"
  let ?e = "dropWhile isSpace (rev ?d)"
  have t: "trim s = rev ?e" by (simp add: trim_def)
  with False have ne: "?e \<noteq> []" by simp
  then have "\<not> isSpace (hd ?e)" by (rule hd_dropWhile)
  then have l: "\<not> isSpace (last (trim s))" using ne t by (simp add: last_rev)
  have dne: "?d \<noteq> []"
  proof
    assume a: "?d = []"
    have "?e = []" unfolding a by simp
    with ne show False by simp
  qed
  then have hd: "\<not> isSpace (hd ?d)" by (rule hd_dropWhile)
  have "trim s @ rev (takeWhile isSpace (rev ?d)) = ?d"
    unfolding trim_def by (rule rev_trailing)
  then have "hd ?d = hd (trim s @ rev (takeWhile isSpace (rev ?d)))" by simp
  also have "\<dots> = hd (trim s)" using False by (rule hd_append2)
  finally have "hd ?d = hd (trim s)" .
  with hd l show ?thesis by simp
qed

lemma toISOString_valid: "validTime t \<Longrightarrow> \<exists>s. toISOString t = Inr s"
  by (cases "civilFromDays (t div 86400000)") (simp add: toISOString_def Let_def)

section \<open>The document format\<close>

text \<open>
  Claim C8, as the source has it. With a valid clock, the Markdown export emits the
  sections of the pages in input order, joined by a line break. The section of a page is
  the heading \<open>## title\<close>, a blank line, \<open>**URL:** url\<close>, a blank line, the first 2000
  characters of the page's text with an ellipsis behind them exactly when the text is
  longer than 2000, a blank line and the separator \<open>---\<close>. The title is the trimmed text
  of the first title element of the content when that text is not blank, and the url of
  the page otherwise; no Markdown heading is looked for. The text is the content without
  tags, single-spaced and without white space at its edges.
\<close>

theorem C8_markdown_sections:
  assumes "validTime now"
  shows "\<exists>d. exportPages now pages Markdown filenamePrefix = Inr d
     \<and> blobContent d = join [CHR 0x0A] (map markdownSection pages)
     \<and> (\<forall>p\<in>set pages.
          let text = trim (plainText (content p)); title = markdownTitle p
          in markdownSection p
               = ''## '' @ title @ [CHR 0x0A, CHR 0x0A] @ ''**URL:** '' @ url p @ [CHR 0x0A, CHR 0x0A]
                 @ take 2000 text @ (if 2000 < length text then ''...'' else [])
                 @ [CHR 0x0A, CHR 0x0A] @ ''---'' @ [CHR 0x0A]
           \<and> (\<forall>g. matchTitle (content p) = Some g \<and> trim g \<noteq> [] \<longrightarrow> title = trim g)
           \<and> ((\<forall>g. matchTitle (content p) = Some g \<longrightarrow> trim g = []) \<longrightarrow> title = url p)
           \<and> \<not> hasTag text \<and> singleSpaced text
           \<and> (text = [] \<or> (\<not> isSpace (hd text) \<and> \<not> isSpace (last text))))"
proof -
  from toISOString_valid [OF assms] obtain isoStr where iso: "toISOString now = Inr isoStr"
    by blast
  let ?d = "\<lparr>blobContent = join [CHR 0x0A] (map markdownSection pages),
             filename = filenamePrefix @ ''-'' @ slice isoStr 0 10 @ ''.md'',
             mimeType = ''text/markdown''\<rparr>"
  have e: "exportPages now pages Markdown filenamePrefix = Inr ?d"
    by (simp add: exportPages_def iso Let_def)
  have sec: "markdownSection p
      = ''## '' @ markdownTitle p @ [CHR 0x0A, CHR 0x0A] @ ''**URL:** '' @ url p @ [CHR 0x0A, CHR 0x0A]
        @ take 2000 (trim (plainText (content p)))
        @ (if 2000 < length (trim (plainText (content p))) then ''...'' else [])
        @ [CHR 0x0A, CHR 0x0A] @ ''---'' @ [CHR 0x0A]" for p
    by (simp add: markdownSection_def plainText_def slice_def Let_def)
  have t1: "\<forall>g. matchTitle (content p) = Some g \<and> trim g \<noteq> [] \<longrightarrow> markdownTitle p = trim g" for p
    by (simp add: markdownTitle_def)
  have t2: "(\<forall>g. matchTitle (content p) = Some g \<longrightarrow> trim g = []) \<longrightarrow> markdownTitle p = url p" for p
    by (cases "matchTitle (content p)") (simp_all add: markdownTitle_def)
  have plain: "\<not> hasTag (plainText c) \<and> singleSpaced (plainText c)" for c
    unfolding plainText_def
    using noTag_collapseWs [OF noTag_stripTags] singleSpaced_collapseWs by blast
  have ptx: "\<not> hasTag (trim (plainText c)) \<and> singleSpaced (trim (plainText c))" for c
    using plain [of c] noTag_trim singleSpaced_trim by blast
  have "\<forall>p\<in>set pages.
          let text = trim (plainText (content p)); title = markdownTitle p
          in markdownSection p
               = ''## '' @ title @ [CHR 0x0A, CHR 0x0A] @ ''**URL:** '' @ url p @ [CHR 0x0A, CHR 0x0A]
                 @ take 2000 text @ (if 2000 < length text then ''...'' else [])
                 @ [CHR 0x0A, CHR 0x0A] @ ''---'' @ [CHR 0x0A]
           \<and> (\<forall>g. matchTitle (content p) = Some g \<and> trim g \<noteq> [] \<longrightarrow> title = trim g)
           \<and> ((\<forall>g. matchTitle (content p) = Some g \<longrightarrow> trim g = []) \<longrightarrow> title = url p)
           \<and> \<not> hasTag text \<and> singleSpaced text
           \<and> (text = [] \<or> (\<not> isSpace (hd text) \<and> \<not> isSpace (last text)))"
    unfolding Let_def using sec t1 t2 ptx trim_edges by blast
  with e show ?thesis by (intro exI [of _ ?d]) simp
qed

text \<open>The theorem at an export of the first page of the scenario and a Markdown page.\<close>

theorem C8_markdown_sections_witness:
  "validTime ex_now
   \<and> exportPages ex_now [ex_page1, ex_page3] Markdown ''kb''
       = Inr \<lparr>blobContent = join [CHR 0x0A] (map markdownSection [ex_page1, ex_page3]),
              filename = ''kb-2023-11-14.md'', mimeType = ''text/markdown''\<rparr>
   \<and> markdownSection ex_page1
       = ''## Cats'' @ [CHR 0x0A, CHR 0x0A] @ ''**URL:** https://a.com/1'' @ [CHR 0x0A, CHR 0x0A]
         @ ''Cats cats are great'' @ [CHR 0x0A, CHR 0x0A] @ ''---'' @ [CHR 0x0A]
   \<and> matchTitle (content ex_page1) = Some ''Cats'' \<and> markdownTitle ex_page1 = trim ''Cats''
   \<and> \<not> hasTag (trim (plainText (content ex_page1)))"
proof -
  have v: "validTime ex_now" by code_simp
  have m: "matchTitle (content ex_page1) = Some ''Cats''" by code_simp
  have n: "trim ''Cats'' \<noteq> []" by code_simp
  have s1: "markdownSection ex_page1
       = ''## Cats'' @ [CHR 0x0A, CHR 0x0A] @ ''**URL:** https://a.com/1'' @ [CHR 0x0A, CHR 0x0A]
         @ ''Cats cats are great'' @ [CHR 0x0A, CHR 0x0A] @ ''---'' @ [CHR 0x0A]" by code_simp
  have fn: "exportPages ex_now [ex_page1, ex_page3] Markdown ''kb''
       = Inr \<lparr>blobContent = join [CHR 0x0A] (map markdownSection [ex_page1, ex_page3]),
              filename = ''kb-2023-11-14.md'', mimeType = ''text/markdown''\<rparr>" by code_simp
  from C8_markdown_sections [OF v, of "[ex_page1, ex_page3]" "''kb''"]
  obtain d where all: "\<forall>p\<in>set [ex_page1, ex_page3].
          let text = trim (plainText (content p)); title = markdownTitle p
          in markdownSection p
               = ''## '' @ title @ [CHR 0x0A, CHR 0x0A] @ ''**URL:** '' @ url p @ [CHR 0x0A, CHR 0x0A]
                 @ take 2000 text @ (if 2000 < length text then ''...'' else [])
                 @ [CHR 0x0A, CHR 0x0A] @ ''---'' @ [CHR 0x0A]
           \<and> (\<forall>g. matchTitle (content p) = Some g \<and> trim g \<noteq> [] \<longrightarrow> title = trim g)
           \<and> ((\<forall>g. matchTitle (content p) = Some g \<longrightarrow> trim g = []) \<longrightarrow> title = url p)
           \<and> \<not> hasTag text \<and> singleSpaced text
           \<and> (text = [] \<or> (\<not> isSpace (hd text) \<and> \<not> isSpace (last text)))"
    by blast
  have mem: "ex_page1 \<in> set [ex_page1, ex_page3]" by simp
  from all mem
  have "let text = trim (plainText (content ex_page1)); title = markdownTitle ex_page1
        in markdownSection ex_page1
               = ''## '' @ title @ [CHR 0x0A, CHR 0x0A] @ ''**URL:** '' @ url ex_page1 @ [CHR 0x0A, CHR 0x0A]
                 @ take 2000 text @ (if 2000 < length text then ''...'' else [])
                 @ [CHR 0x0A, CHR 0x0A] @ ''---'' @ [CHR 0x0A]
           \<and> (\<forall>g. matchTitle (content ex_page1) = Some g \<and> trim g \<noteq> [] \<longrightarrow> title = trim g)
           \<and> ((\<forall>g. matchTitle (content ex_page1) = Some g \<longrightarrow> trim g = []) \<longrightarrow> title = url ex_page1)
           \<and> \<not> hasTag text \<and> singleSpaced text
           \<and> (text = [] \<or> (\<not> isSpace (hd text) \<and> \<not> isSpace (last text)))"
    by (rule bspec)
  then have "markdownTitle ex_page1 = trim ''Cats''"
    and "\<not> hasTag (trim (plainText (content ex_page1)))"
    unfolding Let_def using m n by blast+
  with v m s1 fn show ?thesis by blast
qed

text \<open>
  The claim as the spec words it takes the title by the strategies of \<open>getTitle\<close>. For
  the Markdown page \<open># Guide\<close> they give the heading \<open>Guide\<close>; the export has only the
  title pattern and writes the url as the title.
\<close>

theorem C8_no_heading_strategy_counterexample:
  "exportPages ex_now [ex_page3] Markdown ''kb''
     = Inr \<lparr>blobContent = ''## https://a.com/docs'' @ [CHR 0x0A, CHR 0x0A]
              @ ''**URL:** https://a.com/docs'' @ [CHR 0x0A, CHR 0x0A] @ ''# Guide text''
              @ [CHR 0x0A, CHR 0x0A] @ ''---'' @ [CHR 0x0A],
            filename = ''kb-2023-11-14.md'', mimeType = ''text/markdown''\<rparr>
   \<and> getTitle ex_pathname (content ex_page3) (url ex_page3) = Inr ''Guide''"
proof -
  have "exportPages ex_now [ex_page3] Markdown ''kb''
     = Inr \<lparr>blobContent = ''## https://a.com/docs'' @ [CHR 0x0A, CHR 0x0A]
              @ ''**URL:** https://a.com/docs'' @ [CHR 0x0A, CHR 0x0A] @ ''# Guide text''
              @ [CHR 0x0A, CHR 0x0A] @ ''---'' @ [CHR 0x0A],
            filename = ''kb-2023-11-14.md'', mimeType = ''text/markdown''\<rparr>" by code_simp
  moreover have "getTitle ex_pathname (content ex_page3) (url ex_page3) = Inr ''Guide''"
    by code_simp
  ultimately show ?thesis by simp
qed

text \<open>
  Claim C10. The file name prefix of a single-page export is the page's url with every
  character outside \<open>[a-zA-Z0-9]\<close> replaced by an underscore, cut to at most 50
  characters: it has length at most 50 and consists of ASCII letters, digits and
  underscores only.
\<close>

theorem C10_single_page_prefix:
  "singlePagePrefix page = take 50 (map (\<lambda>c. if isAlnum c then c else CHR ''_'') (url page))
   \<and> length (singlePagePrefix page) \<le> 50
   \<and> length (singlePagePrefix page) = min 50 (length (url page))
   \<and> list_all (\<lambda>c. isAlnum c \<or> c = CHR ''_'') (singlePagePrefix page)"
  by (auto simp: singlePagePrefix_def slice_def replaceNonAlnum_def list_all_iff
      dest!: in_set_takeD)

end
